theory Spec2Isabelle
  imports Main "HOL-Library.Word" "HOL-Library.Monad_Syntax"
begin

unbundle bit_operations_syntax

section \<open>Data model\<close>

text \<open>
  The development embeds \<^verbatim>\<open>src/fs/sc/datareaderthread.cpp\<close>: the worker thread that
  polls the simulator through a \<^verbatim>\<open>SimConnectHandler\<close>, or replays a recorded session.
  The classes \<^verbatim>\<open>SimConnectData\<close>, \<^verbatim>\<open>WeatherRequest\<close> and \<^verbatim>\<open>SimConnectHandler\<close> and the
  header of \<^verbatim>\<open>DataReaderThread\<close> are not part of the sources at hand; what the thread needs
  of them is either a parameter of the model or taken from the specification, and marked so.
\<close>

type_synonym byte = "8 word"

text \<open>
  Modelled from the spec: the status enumeration of \<^verbatim>\<open>SimConnectData\<close>
  (\<^verbatim>\<open>status (OK | ERROR)\<close>); its declaration is missing from the sources.
\<close>

datatype SimConnectStatus = OK | ERROR

text \<open>
  Modelled from the spec: the fields of \<^verbatim>\<open>SimConnectData\<close> (the class is missing from the
  sources). The packet id is the 64-bit counter of the specification, the time stamp is
  what \<^verbatim>\<open>QDateTime::toTime_t\<close> returns, the metar mapping is kept as an association list
  and the payload as opaque bytes.
\<close>

record SimConnectData =
  packetId :: "64 word"
  packetTs :: "32 word"
  status :: SimConnectStatus
  statusText :: string
  metars :: "(string \<times> string) list"
  payload :: "byte list"

text \<open>
  Modelled from the spec: the default constructed \<^verbatim>\<open>SimConnectData()\<close>, the synthetic
  empty reply (status OK, empty metars, packet id 0); the constructor is missing from the sources.
\<close>

definition SimConnectData_default :: SimConnectData where
  "SimConnectData_default =
     \<lparr>packetId = 0, packetTs = 0, status = OK, statusText = [], metars = [], payload = []\<rparr>"

text \<open>
  Modelled from the spec: \<^verbatim>\<open>WeatherRequest\<close> is a validity flag plus a query descriptor,
  and the default constructed request is the invalid one; the class is missing from the sources.
\<close>

record WeatherRequest =
  isValid :: bool
  descriptor :: string

definition WeatherRequest_default :: WeatherRequest where
  "WeatherRequest_default = \<lparr>isValid = False, descriptor = []\<rparr>"

text \<open>The texts of \<^verbatim>\<open>postLogMessage\<close>, with the file path and status text they carry.\<close>

datatype log_text =
    NotConnectedWaiting
  | ConnectedToSim
  | ErrorReading string string
  | CannotOpen string
  | WrongMagicNumber string
  | WrongVersion string
  | FileTooSmall string
  | ReplayingFrom string
  | SavingReplayTo string

text \<open>The calls the thread makes on its \<^verbatim>\<open>SimConnectHandler\<close>.\<close>

datatype handler_call =
    Connect
  | FetchData
  | FetchWeatherData WeatherRequest
  | GetWeatherRequest
  | AddWeatherRequest WeatherRequest
  | GetState
  | IsSimRunning

text \<open>
  Everything the thread does that is visible outside it, in the order it happens: the Qt
  signals it emits, its calls on the handler, the reads and writes of \<^verbatim>\<open>SimConnectData\<close>
  on the replay files, warnings, one-second sleeps and the wake-up of the wait condition.
\<close>

datatype event =
    PostLogMessage log_text bool
  | ConnectedToSimulator
  | DisconnectedFromSimulator
  | PostSimConnectData SimConnectData
  | Handler handler_call
  | ReadReplay
  | WriteReplay SimConnectData
  | QWarning string
  | Sleep nat
  | WakeAll

text \<open>
  A \<^verbatim>\<open>QFile\<close> open for reading holds the bytes of the file and what lies after the read
  position; one open for writing holds its path and the bytes written so far.
\<close>

record QFile_in =
  in_bytes :: "byte list"
  in_rest :: "byte list"

record QFile_out =
  out_path :: string
  out_bytes :: "byte list"

text \<open>
  The members of \<^verbatim>\<open>DataReaderThread\<close> that the code reads or writes, the weather request
  slot of its handler, the files on disk and the trace of events. The \<^verbatim>\<open>terminate\<close> flag
  is written by other threads and is an input of the loops below. The \<^verbatim>\<open>verbose\<close> flag
  only guards debug output and is left out, as is the length of the wait between two cycles.
\<close>

record DataReaderThread =
  connected :: bool
  reconnecting :: bool
  nextPacketId :: "64 word"
  updateRate :: int
  reconnectRateSec :: int
  replayUpdateRateMs :: "32 word"
  loadReplayFilepath :: string
  saveReplayFilepath :: string
  loadReplayFile :: "QFile_in option"
  saveReplayFile :: "QFile_out option"
  weatherRequest :: WeatherRequest
  disk :: "string \<rightharpoonup> byte list"
  events :: "event list"

text \<open>
  What the build supplies and the sources at hand do not: the two header constants of
  \<^verbatim>\<open>datareaderthread.h\<close> and the serialisation of \<^verbatim>\<open>SimConnectData\<close>
  (\<^verbatim>\<open>write\<close> gives the bytes of one record, \<^verbatim>\<open>read\<close> takes the bytes after the read
  position and gives the packet, with its status, and the bytes left).
\<close>

record externals =
  REPLAY_FILE_MAGIC_NUMBER :: "32 word"
  REPLAY_FILE_VERSION :: "32 word"
  sc_write :: "SimConnectData \<Rightarrow> byte list"
  sc_read :: "byte list \<Rightarrow> SimConnectData \<times> byte list"

text \<open>
  Modelled from the spec: the constant \<^verbatim>\<open>REPLAY_FILE_DATA_START_OFFSET\<close> of the missing
  header; the data section starts at byte 12, right after the three header words.
\<close>

definition REPLAY_FILE_DATA_START_OFFSET :: nat where
  "REPLAY_FILE_DATA_START_OFFSET = 12"

section \<open>Streams of 32-bit words\<close>

text \<open>\<^verbatim>\<open>QDataStream\<close> writes and reads a \<^verbatim>\<open>quint32\<close> as four bytes, most significant first.\<close>

definition put32 :: "32 word \<Rightarrow> byte list" where
  "put32 w = [ucast (drop_bit 24 w), ucast (drop_bit 16 w), ucast (drop_bit 8 w), ucast w]"

definition get32 :: "byte list \<Rightarrow> 32 word" where
  "get32 bs = foldl (\<lambda>acc b. push_bit 8 acc OR ucast b) 0 (take 4 bs)"

section \<open>The thread\<close>

definition emit :: "event \<Rightarrow> DataReaderThread \<Rightarrow> DataReaderThread" where
  "emit e s = s\<lparr>events := events s @ [e]\<rparr>"

text \<open>\<^verbatim>\<open>closeReplay\<close>: closing the record file leaves its bytes on disk.\<close>

definition closeReplay :: "DataReaderThread \<Rightarrow> DataReaderThread" where
  "closeReplay s =
     (let s1 = (case saveReplayFile s of
                  None \<Rightarrow> s
                | Some f \<Rightarrow> s\<lparr>disk := (disk s)(out_path f \<mapsto> out_bytes f), saveReplayFile := None\<rparr>)
      in s1\<lparr>loadReplayFile := None\<rparr>)"

text \<open>
  \<^verbatim>\<open>setupReplay\<close>. The two flags say whether the operating system lets the file be opened
  for reading and for writing. A file that does not exist has size 0.
\<close>

definition setupReplay :: "externals \<Rightarrow> bool \<Rightarrow> bool \<Rightarrow> DataReaderThread \<Rightarrow> DataReaderThread" where
  "setupReplay K open_rd open_wr s =
     (if loadReplayFilepath s \<noteq> [] then
        (let path = loadReplayFilepath s;
             bytes = (case disk s path of None \<Rightarrow> [] | Some bs \<Rightarrow> bs);
             s1 = s\<lparr>loadReplayFile := Some \<lparr>in_bytes = bytes, in_rest = bytes\<rparr>\<rparr>
         in if length bytes > REPLAY_FILE_DATA_START_OFFSET then
              (if \<not> open_rd then
                 (emit (PostLogMessage (CannotOpen path) True) s1)\<lparr>loadReplayFile := None\<rparr>
               else
                 (let magicNumber = get32 bytes;
                      version = get32 (drop 4 bytes);
                      s2 = s1\<lparr>replayUpdateRateMs := get32 (drop 8 bytes),
                              loadReplayFile := Some \<lparr>in_bytes = bytes, in_rest = drop 12 bytes\<rparr>\<rparr>
                  in if magicNumber \<noteq> REPLAY_FILE_MAGIC_NUMBER K then
                       closeReplay (emit (PostLogMessage (WrongMagicNumber path) True) s2)
                     else if version \<noteq> REPLAY_FILE_VERSION K then
                       closeReplay (emit (PostLogMessage (WrongVersion path) True) s2)
                     else
                       emit ConnectedToSimulator
                         (emit (PostLogMessage (ReplayingFrom path) False) s2)))
            else closeReplay (emit (PostLogMessage (FileTooSmall path) True) s1))
      else if saveReplayFilepath s \<noteq> [] then
        (let path = saveReplayFilepath s in
         if \<not> open_wr then
           (emit (PostLogMessage (CannotOpen path) True) s)\<lparr>saveReplayFile := None\<rparr>
         else
           (emit (PostLogMessage (SavingReplayTo path) False) s)
             \<lparr>disk := (disk s)(path \<mapsto> []),
              saveReplayFile := Some \<lparr>out_path = path,
                out_bytes = put32 (REPLAY_FILE_MAGIC_NUMBER K) @ put32 (REPLAY_FILE_VERSION K)
                            @ put32 (word_of_int (updateRate s))\<rparr>\<rparr>)
      else s)"

text \<open>
  \<^verbatim>\<open>connectToSimulator\<close>. Each pass of its loop tests the \<^verbatim>\<open>terminate\<close> flag and, when the
  counter is a multiple of \<^verbatim>\<open>reconnectRateSec\<close>, calls \<^verbatim>\<open>handler->connect()\<close>. A \<open>tick\<close> holds
  what one pass meets: the value of the flag at the test and the answer the handler gives
  if it is asked. The loop has no other exit, so a thread that has used up the ticks it
  was given is still waiting. A remainder by zero stops the program.
\<close>

record tick =
  cancel :: bool
  connect_ok :: bool

datatype fault = DivisionByZero | StillWaiting

fun connectLoop :: "tick list \<Rightarrow> int \<Rightarrow> DataReaderThread \<Rightarrow> fault + DataReaderThread" where
  "connectLoop [] counter s = Inl StillWaiting"
| "connectLoop (t # ts) counter s =
     (if cancel t then Inr s
      else if reconnectRateSec s = 0 then Inl DivisionByZero
      else if counter mod reconnectRateSec s = 0 then
        (let s1 = emit (Handler Connect) s in
         if connect_ok t then
           Inr (emit (PostLogMessage ConnectedToSim False)
                  (emit ConnectedToSimulator (s1\<lparr>connected := True\<rparr>)))
         else connectLoop ts (0 + 1) (emit (Sleep 1) s1))
      else connectLoop ts (counter + 1) (emit (Sleep 1) s))"

definition connectToSimulator :: "tick list \<Rightarrow> DataReaderThread \<Rightarrow> fault + DataReaderThread" where
  "connectToSimulator ticks s =
     (case connectLoop ticks 0
             ((emit (PostLogMessage NotConnectedWaiting False) s)\<lparr>reconnecting := True\<rparr>) of
        Inl f \<Rightarrow> Inl f
      | Inr s' \<Rightarrow> Inr (s'\<lparr>reconnecting := False\<rparr>))"

text \<open>
  What one cycle of the main loop meets outside the thread: the answers of the handler
  (the result of \<^verbatim>\<open>fetchData\<close> and the packet it fills, the packet \<^verbatim>\<open>fetchWeatherData\<close>
  fills, whether \<^verbatim>\<open>getState\<close> is \<^verbatim>\<open>STATEOK\<close>, \<^verbatim>\<open>isSimRunning\<close>), the clock, the ticks of a
  reconnect should the cycle start one, and the weather requests that other threads
  submit while the thread waits for the next cycle.
\<close>

record cycle_env =
  fetch_ok :: bool
  fetched :: SimConnectData
  weather :: SimConnectData
  now :: "32 word"
  state_ok :: bool
  sim_running :: bool
  reconnect :: "tick list"
  submits :: "WeatherRequest list"

text \<open>\<^verbatim>\<open>fetchData\<close> returns its result, the packet and the new state.\<close>

definition fetchData :: "cycle_env \<Rightarrow> DataReaderThread \<Rightarrow> bool \<times> SimConnectData \<times> DataReaderThread" where
  "fetchData e s =
     (let s0 = emit (Handler GetWeatherRequest) s;
          weatherRequested = isValid (weatherRequest s0);
          (retval, data, s1) =
            (if weatherRequested then
               (True, (weather e)\<lparr>packetId := 0\<rparr>,
                emit (Handler (FetchWeatherData (weatherRequest s0))) s0)
             else
               (fetch_ok e, (fetched e)\<lparr>packetId := nextPacketId s0\<rparr>,
                (emit (Handler FetchData) s0)\<lparr>nextPacketId := nextPacketId s0 + 1\<rparr>));
          data1 = data\<lparr>packetTs := now e\<rparr>;
          s2 = (if weatherRequested \<and> metars data1 = []
                then emit (QWarning ''Weather requested but noting found'') s1 else s1);
          s3 = (emit (Handler (AddWeatherRequest WeatherRequest_default)) s2)
                 \<lparr>weatherRequest := WeatherRequest_default\<rparr>
      in (retval, data1, s3))"

text \<open>\<^verbatim>\<open>setWeatherRequest\<close>, called by other threads.\<close>

definition setWeatherRequest :: "WeatherRequest \<Rightarrow> DataReaderThread \<Rightarrow> DataReaderThread" where
  "setWeatherRequest request s =
     (if saveReplayFile s \<noteq> None then emit (PostSimConnectData SimConnectData_default) s
      else emit WakeAll
             ((emit (Handler (AddWeatherRequest request)) s)\<lparr>weatherRequest := request\<rparr>))"

text \<open>The body of the main loop of \<^verbatim>\<open>run\<close>, up to the wait.\<close>

definition cycle :: "externals \<Rightarrow> cycle_env \<Rightarrow> DataReaderThread \<Rightarrow> fault + DataReaderThread" where
  "cycle K e s =
     (case loadReplayFile s of
        Some f \<Rightarrow>
          (let (data, rest) = sc_read K (in_rest f);
               s1 = (emit ReadReplay s)\<lparr>loadReplayFile := Some (f\<lparr>in_rest := rest\<rparr>)\<rparr>
           in if status data = OK then
                (let s2 = (if rest = []
                           then s1\<lparr>loadReplayFile :=
                                  Some (f\<lparr>in_rest := drop REPLAY_FILE_DATA_START_OFFSET (in_bytes f)\<rparr>)\<rparr>
                           else s1)
                 in Inr (emit (PostSimConnectData data) s2))
              else
                Inr (closeReplay
                       (emit (PostLogMessage
                                (ErrorReading (loadReplayFilepath s) (statusText data)) True) s1)))
      | None \<Rightarrow>
          (let (ok, data, s1) = fetchData e s in
           if ok then
             (let s2 = emit (PostSimConnectData data) s1 in
              case saveReplayFile s2 of
                None \<Rightarrow> Inr s2
              | Some f \<Rightarrow>
                  if packetId data > 0 then
                    Inr ((emit (WriteReplay data) s2)
                           \<lparr>saveReplayFile := Some (f\<lparr>out_bytes := out_bytes f @ sc_write K data\<rparr>)\<rparr>)
                  else Inr s2)
           else
             (let s2 = emit (Handler GetState) s1 in
              if \<not> state_ok e then
                (let s3 = emit (QWarning ''Error fetching data from simulator.'')
                            (emit DisconnectedFromSimulator (s2\<lparr>connected := False\<rparr>));
                     s4 = emit (Handler IsSimRunning) s3
                 in if \<not> sim_running e then connectToSimulator (reconnect e) s4 else Inr s4)
              else Inr s2)))"

text \<open>The wait at the end of a cycle, during which other threads submit weather requests.\<close>

definition wait :: "cycle_env \<Rightarrow> DataReaderThread \<Rightarrow> DataReaderThread" where
  "wait e s = foldl (\<lambda>s' request. setWeatherRequest request s') s (submits e)"

text \<open>
  The main loop runs one cycle for each entry of the list: the entries are the passes
  that found \<^verbatim>\<open>terminate\<close> unset, and the test after the last one finds it set.
\<close>

fun mainLoop :: "externals \<Rightarrow> cycle_env list \<Rightarrow> DataReaderThread \<Rightarrow> fault + DataReaderThread" where
  "mainLoop K [] s = Inr s"
| "mainLoop K (e # es) s =
     (case cycle K e s of
        Inl f \<Rightarrow> Inl f
      | Inr s' \<Rightarrow> mainLoop K es (wait e s'))"

text \<open>What a whole run meets: the two answers of the file system, the ticks of the first
  connect and the cycles of the main loop.\<close>

record run_env =
  open_rd :: bool
  open_wr :: bool
  first_connect :: "tick list"
  cycles :: "cycle_env list"

definition run :: "externals \<Rightarrow> run_env \<Rightarrow> DataReaderThread \<Rightarrow> fault + DataReaderThread" where
  "run K env s =
     (let s1 = setupReplay K (open_rd env) (open_wr env) s in
      case (if loadReplayFile s1 = None then connectToSimulator (first_connect env) s1
            else Inr (s1\<lparr>connected := True\<rparr>)) of
        Inl f \<Rightarrow> Inl f
      | Inr s2 \<Rightarrow>
          (case mainLoop K (cycles env) s2 of
             Inl f \<Rightarrow> Inl f
           | Inr s3 \<Rightarrow>
               Inr (emit DisconnectedFromSimulator
                      ((closeReplay s3)\<lparr>connected := False, reconnecting := False\<rparr>))))"

text \<open>The packets posted to the host, and their ids, in a trace.\<close>

fun posted :: "event list \<Rightarrow> SimConnectData list" where
  "posted [] = []"
| "posted (PostSimConnectData d # evs) = d # posted evs"
| "posted (_ # evs) = posted evs"

text \<open>The packets written to the record file, in a trace.\<close>

fun written :: "event list \<Rightarrow> SimConnectData list" where
  "written [] = []"
| "written (WriteReplay d # evs) = d # written evs"
| "written (_ # evs) = written evs"

text \<open>The weather requests the handler was asked to fetch, in a trace.\<close>

fun weather_fetches :: "event list \<Rightarrow> WeatherRequest list" where
  "weather_fetches [] = []"
| "weather_fetches (Handler (FetchWeatherData q) # evs) = q # weather_fetches evs"
| "weather_fetches (_ # evs) = weather_fetches evs"

text \<open>The number of reads from the playback file, and of calls of \<^verbatim>\<open>fetchData\<close> (each call
  asks the handler for its weather request exactly once), in a trace.\<close>

definition replay_reads :: "event list \<Rightarrow> nat" where
  "replay_reads evs = count_list evs ReadReplay"

definition fetch_calls :: "event list \<Rightarrow> nat" where
  "fetch_calls evs = count_list evs (Handler GetWeatherRequest)"

text \<open>The seconds slept in a trace.\<close>

fun slept :: "event list \<Rightarrow> nat" where
  "slept [] = 0"
| "slept (Sleep n # evs) = n + slept evs"
| "slept (_ # evs) = slept evs"

text \<open>The events \<^verbatim>\<open>connectToSimulator\<close> can produce.\<close>

fun connect_event :: "event \<Rightarrow> bool" where
  "connect_event (PostLogMessage t b) = (\<not> b)"
| "connect_event ConnectedToSimulator = True"
| "connect_event (Handler Connect) = True"
| "connect_event (Sleep n) = (n = 1)"
| "connect_event _ = False"

text \<open>
  The telemetry packets a stretch of live cycles delivers when no weather request is
  pending: cycle by cycle, the counter is handed out whether or not the fetch succeeds,
  and the packet is delivered only if it does.
\<close>

fun live_packets :: "64 word \<Rightarrow> cycle_env list \<Rightarrow> SimConnectData list" where
  "live_packets n [] = []"
| "live_packets n (e # es) =
     (if fetch_ok e then [(fetched e)\<lparr>packetId := n, packetTs := now e\<rparr>] else [])
     @ live_packets (n + 1) es"

text \<open>
  Whether a weather request is pending after the wait of a cycle, when no record file is
  open: the last request submitted during the wait, or what was pending before it.
\<close>

definition pending_after :: "bool \<Rightarrow> WeatherRequest list \<Rightarrow> bool" where
  "pending_after v qs = (if qs = [] then v else isValid (last qs))"


text \<open>The events of the weather requests submitted during a wait, when no record file is open.\<close>

definition submit_events :: "WeatherRequest list \<Rightarrow> event list" where
  "submit_events qs = concat (map (\<lambda>q. [Handler (AddWeatherRequest q), WakeAll]) qs)"

text \<open>The header of a replay file, and the test \<^verbatim>\<open>setupReplay\<close> applies to one.\<close>

definition replay_header :: "externals \<Rightarrow> 32 word \<Rightarrow> byte list" where
  "replay_header K rate =
     put32 (REPLAY_FILE_MAGIC_NUMBER K) @ put32 (REPLAY_FILE_VERSION K) @ put32 rate"

definition file_bytes :: "DataReaderThread \<Rightarrow> string \<Rightarrow> byte list" where
  "file_bytes s path = (case disk s path of None \<Rightarrow> [] | Some bs \<Rightarrow> bs)"

definition header_accepted :: "externals \<Rightarrow> byte list \<Rightarrow> bool" where
  "header_accepted K bytes \<longleftrightarrow>
     length bytes > 12 \<and> get32 bytes = REPLAY_FILE_MAGIC_NUMBER K
     \<and> get32 (drop 4 bytes) = REPLAY_FILE_VERSION K"

definition header_error :: "externals \<Rightarrow> string \<Rightarrow> byte list \<Rightarrow> log_text" where
  "header_error K path bytes =
     (if length bytes \<le> 12 then FileTooSmall path
      else if get32 bytes \<noteq> REPLAY_FILE_MAGIC_NUMBER K then WrongMagicNumber path
      else WrongVersion path)"

text \<open>
  What the round trip through a replay file needs of the serialisation of the build, for
  one packet: the packet has status \<open>OK\<close> (any other status ends the playback), its record
  is not empty, and reading a stream that starts with the record gives the packet back
  and leaves the rest of the stream.
\<close>

definition replayable :: "externals \<Rightarrow> SimConnectData \<Rightarrow> bool" where
  "replayable K d \<longleftrightarrow>
     status d = OK \<and> sc_write K d \<noteq> []
     \<and> (\<forall>rest. sc_read K (sc_write K d @ rest) = (d, rest))"

section \<open>A record format\<close>

text \<open>
  Modelled from the spec: \<^verbatim>\<open>SimConnectData::write\<close> and \<^verbatim>\<open>SimConnectData::read\<close> are missing
  from the sources. The specification fixes the order of the fields of a record (status,
  optional error text, timestamp, packet id, metar mapping, payload); the format below
  follows it, with lengths and counts as 32-bit words. A record that cannot be parsed is
  read as a packet of status \<open>ERROR\<close>.
\<close>

definition put64 :: "64 word \<Rightarrow> byte list" where
  "put64 w = put32 (ucast (drop_bit 32 w)) @ put32 (ucast w)"

definition get64 :: "byte list \<Rightarrow> 64 word" where
  "get64 bs = push_bit 32 (ucast (get32 bs)) OR ucast (get32 (drop 4 bs))"

definition put_string :: "string \<Rightarrow> byte list" where
  "put_string cs = put32 (of_nat (length cs)) @ map (\<lambda>c. of_nat (of_char c)) cs"

definition put_metar :: "string \<times> string \<Rightarrow> byte list" where
  "put_metar kv = put_string (fst kv) @ put_string (snd kv)"

definition plain_write :: "SimConnectData \<Rightarrow> byte list" where
  "plain_write d =
     (case status d of OK \<Rightarrow> [0] | ERROR \<Rightarrow> 1 # put_string (statusText d))
     @ put32 (packetTs d) @ put64 (packetId d)
     @ put32 (of_nat (length (metars d))) @ concat (map put_metar (metars d))
     @ put32 (of_nat (length (payload d))) @ payload d"

definition take_bytes :: "nat \<Rightarrow> byte list \<Rightarrow> (byte list \<times> byte list) option" where
  "take_bytes n bs = (if length bs < n then None else Some (take n bs, drop n bs))"

definition take32 :: "byte list \<Rightarrow> (32 word \<times> byte list) option" where
  "take32 bs = do { (h, r) \<leftarrow> take_bytes 4 bs; Some (get32 h, r) }"

definition take64 :: "byte list \<Rightarrow> (64 word \<times> byte list) option" where
  "take64 bs = do { (h, r) \<leftarrow> take_bytes 8 bs; Some (get64 h, r) }"

definition take_string :: "byte list \<Rightarrow> (string \<times> byte list) option" where
  "take_string bs =
     do { (n, r) \<leftarrow> take32 bs;
          (cs, r') \<leftarrow> take_bytes (unat n) r;
          Some (map (\<lambda>b. char_of (unat b)) cs, r') }"

fun take_metars :: "nat \<Rightarrow> byte list \<Rightarrow> ((string \<times> string) list \<times> byte list) option" where
  "take_metars 0 bs = Some ([], bs)"
| "take_metars (Suc n) bs =
     do { (k, r) \<leftarrow> take_string bs;
          (v, r') \<leftarrow> take_string r;
          (kvs, r'') \<leftarrow> take_metars n r';
          Some ((k, v) # kvs, r'') }"

definition take_status :: "byte list \<Rightarrow> ((SimConnectStatus \<times> string) \<times> byte list) option" where
  "take_status bs =
     (case bs of
        [] \<Rightarrow> None
      | b # r \<Rightarrow>
          if b = 0 then Some ((OK, []), r)
          else if b = 1 then do { (t, r') \<leftarrow> take_string r; Some ((ERROR, t), r') }
          else None)"

definition plain_parse :: "byte list \<Rightarrow> (SimConnectData \<times> byte list) option" where
  "plain_parse bs =
     do { ((st, txt), r1) \<leftarrow> take_status bs;
          (ts, r2) \<leftarrow> take32 r1;
          (pid, r3) \<leftarrow> take64 r2;
          (n, r4) \<leftarrow> take32 r3;
          (ms, r5) \<leftarrow> take_metars (unat n) r4;
          (len, r6) \<leftarrow> take32 r5;
          (pl, r7) \<leftarrow> take_bytes (unat len) r6;
          Some (\<lparr>packetId = pid, packetTs = ts, status = st, statusText = txt,
                 metars = ms, payload = pl\<rparr>, r7) }"

definition plain_read :: "byte list \<Rightarrow> SimConnectData \<times> byte list" where
  "plain_read bs =
     (case plain_parse bs of
        Some (d, r) \<Rightarrow> (d, r)
      | None \<Rightarrow> (SimConnectData_default\<lparr>status := ERROR, statusText := ''malformed record''\<rparr>, []))"

text \<open>The packets the format above carries: every length and count fits its 32-bit word,
  and a packet of status \<open>OK\<close> has no error text.\<close>

definition plain_packet :: "SimConnectData \<Rightarrow> bool" where
  "plain_packet d \<longleftrightarrow>
     length (statusText d) < 2 ^ 32 \<and> length (metars d) < 2 ^ 32 \<and> length (payload d) < 2 ^ 32
     \<and> list_all (\<lambda>kv. length (fst kv) < 2 ^ 32 \<and> length (snd kv) < 2 ^ 32) (metars d)
     \<and> (status d = OK \<longrightarrow> statusText d = [])"

section \<open>A concrete setting\<close>

text \<open>
  Values to run the model on: a build with the record format above (the two header
  constants are missing from the sources, any two words do) and a thread as it is
  constructed.
\<close>

definition plain_build :: externals where
  "plain_build =
     \<lparr>REPLAY_FILE_MAGIC_NUMBER = 0x53435250, REPLAY_FILE_VERSION = 1,
      sc_write = plain_write, sc_read = plain_read\<rparr>"

text \<open>
  Modelled from the spec: the members of a newly constructed thread (the header with
  their initialisers is missing): not connected, the counter at 1, no file, no pending request.
\<close>

definition new_thread :: DataReaderThread where
  "new_thread =
     \<lparr>connected = False, reconnecting = False, nextPacketId = 1, updateRate = 500,
      reconnectRateSec = 10, replayUpdateRateMs = 500, loadReplayFilepath = [],
      saveReplayFilepath = [], loadReplayFile = None, saveReplayFile = None,
      weatherRequest = WeatherRequest_default, disk = Map.empty, events = []\<rparr>"

definition telemetry :: "byte list \<Rightarrow> SimConnectData" where
  "telemetry bs = SimConnectData_default\<lparr>payload := bs\<rparr>"

definition quiet_cycle :: "bool \<Rightarrow> byte list \<Rightarrow> cycle_env" where
  "quiet_cycle ok bs =
     \<lparr>fetch_ok = ok, fetched = telemetry bs, weather = SimConnectData_default, now = 1000,
      state_ok = True, sim_running = True, reconnect = [], submits = []\<rparr>"

definition connect_at_once :: "tick list" where
  "connect_at_once = [\<lparr>cancel = False, connect_ok = True\<rparr>]"

text \<open>Threads before a run: one that will record, with and without a weather request
  already in the handler, one connected, and one that will play the file given.\<close>

definition recorder :: DataReaderThread where
  "recorder = new_thread\<lparr>saveReplayFilepath := ''rec''\<rparr>"

definition pending_recording :: DataReaderThread where
  "pending_recording = recorder\<lparr>weatherRequest := \<lparr>isValid = True, descriptor = ''EDDF''\<rparr>\<rparr>"

definition live_thread :: DataReaderThread where
  "live_thread = new_thread\<lparr>connected := True\<rparr>"

definition playback_thread :: "byte list \<Rightarrow> DataReaderThread" where
  "playback_thread bytes = new_thread\<lparr>loadReplayFilepath := ''rec'', disk := [''rec'' \<mapsto> bytes]\<rparr>"

text \<open>Runs of two and three cycles; in \<open>gap_run\<close> the second fetch fails.\<close>

definition two_cycles :: run_env where
  "two_cycles =
     \<lparr>open_rd = True, open_wr = True, first_connect = connect_at_once,
      cycles = [quiet_cycle True [1], quiet_cycle True [2]]\<rparr>"

definition gap_run :: run_env where
  "gap_run =
     \<lparr>open_rd = True, open_wr = True, first_connect = connect_at_once,
      cycles = [quiet_cycle True [1], quiet_cycle False [], quiet_cycle True [3]]\<rparr>"

definition three_cycles :: run_env where
  "three_cycles =
     \<lparr>open_rd = True, open_wr = True, first_connect = [],
      cycles = [quiet_cycle False [], quiet_cycle False [], quiet_cycle False []]\<rparr>"

text \<open>A cycle whose fetch fails, by the state of the handler and of the simulator.\<close>

definition failing_cycle :: "bool \<Rightarrow> bool \<Rightarrow> cycle_env" where
  "failing_cycle st_ok running = (quiet_cycle False [])\<lparr>state_ok := st_ok, sim_running := running\<rparr>"

text \<open>A replay file with two records, and four files that are not replay files.\<close>

definition recorded_file :: "byte list" where
  "recorded_file =
     replay_header plain_build 500
     @ plain_write ((telemetry [1])\<lparr>packetId := 1, packetTs := 1000\<rparr>)
     @ plain_write ((telemetry [2])\<lparr>packetId := 2, packetTs := 1000\<rparr>)"

definition flipped_magic_file :: "byte list" where
  "flipped_magic_file = recorded_file[0 := hd recorded_file XOR 1]"

definition wrong_version_file :: "byte list" where
  "wrong_version_file = recorded_file[7 := 2]"

definition header_only_file :: "byte list" where
  "header_only_file = replay_header plain_build 500"


text \<open>Threads after \<^verbatim>\<open>setupReplay\<close>: one playing, one recording; and a weather request.\<close>

definition playing_thread :: DataReaderThread where
  "playing_thread = setupReplay plain_build True True (playback_thread recorded_file)"

definition recording_thread :: DataReaderThread where
  "recording_thread = setupReplay plain_build True True recorder"

definition ksfo_request :: WeatherRequest where
  "ksfo_request = \<lparr>isValid = True, descriptor = ''KSFO''\<rparr>"

definition eddf_request :: WeatherRequest where
  "eddf_request = \<lparr>isValid = True, descriptor = ''EDDF''\<rparr>"

text \<open>Passes of the reconnect loop that fail to connect, and the pass that finds the
  thread cancelled.\<close>

definition waiting_ticks :: "nat \<Rightarrow> tick list" where
  "waiting_ticks n = replicate n \<lparr>cancel = False, connect_ok = False\<rparr>"

definition cancel_tick :: tick where
  "cancel_tick = \<lparr>cancel = True, connect_ok = False\<rparr>"

section \<open>Traces\<close>

lemma events_emit [simp]: "events (emit e s) = events s @ [e]"
  by (simp add: emit_def)

lemma emit_fields [simp]:
  "connected (emit e s) = connected s"
  "reconnecting (emit e s) = reconnecting s"
  "nextPacketId (emit e s) = nextPacketId s"
  "updateRate (emit e s) = updateRate s"
  "reconnectRateSec (emit e s) = reconnectRateSec s"
  "replayUpdateRateMs (emit e s) = replayUpdateRateMs s"
  "loadReplayFilepath (emit e s) = loadReplayFilepath s"
  "saveReplayFilepath (emit e s) = saveReplayFilepath s"
  "loadReplayFile (emit e s) = loadReplayFile s"
  "saveReplayFile (emit e s) = saveReplayFile s"
  "weatherRequest (emit e s) = weatherRequest s"
  "disk (emit e s) = disk s"
  by (simp_all add: emit_def)

lemma posted_append [simp]: "posted (xs @ ys) = posted xs @ posted ys"
  by (induction xs rule: posted.induct) simp_all

lemma written_append [simp]: "written (xs @ ys) = written xs @ written ys"
  by (induction xs rule: written.induct) simp_all

lemma weather_fetches_append [simp]:
  "weather_fetches (xs @ ys) = weather_fetches xs @ weather_fetches ys"
  by (induction xs rule: weather_fetches.induct) simp_all

lemma slept_append [simp]: "slept (xs @ ys) = slept xs + slept ys"
  by (induction xs rule: slept.induct) simp_all

lemma replay_reads_append [simp]: "replay_reads (xs @ ys) = replay_reads xs + replay_reads ys"
  by (simp add: replay_reads_def)

lemma fetch_calls_append [simp]: "fetch_calls (xs @ ys) = fetch_calls xs + fetch_calls ys"
  by (simp add: fetch_calls_def)

lemma replay_reads_simps [simp]:
  "replay_reads [] = 0"
  "replay_reads (ev # evs) = (if ev = ReadReplay then 1 else 0) + replay_reads evs"
  by (simp_all add: replay_reads_def)

lemma fetch_calls_simps [simp]:
  "fetch_calls [] = 0"
  "fetch_calls (ev # evs) = (if ev = Handler GetWeatherRequest then 1 else 0) + fetch_calls evs"
  by (simp_all add: fetch_calls_def)

lemma connect_events_silent:
  assumes "list_all connect_event evs"
  shows "posted evs = []" and "written evs = []" and "weather_fetches evs = []"
    and "replay_reads evs = 0" and "fetch_calls evs = 0"
proof -
  from assms show "posted evs = []" by (induction evs rule: posted.induct) simp_all
  from assms show "written evs = []" by (induction evs rule: written.induct) simp_all
  from assms show "weather_fetches evs = []"
    by (induction evs rule: weather_fetches.induct) simp_all
  from assms show "replay_reads evs = 0" by (induction evs) auto
  from assms show "fetch_calls evs = 0" by (induction evs) auto
qed

section \<open>Connecting\<close>

lemma connectLoop_effect:
  "connectLoop ts c s = Inr s' \<Longrightarrow>
   \<exists>evs b. s' = s\<lparr>connected := b, events := events s @ evs\<rparr> \<and> list_all connect_event evs"
proof (induction ts arbitrary: c s)
  case Nil
  then show ?case by simp
next
  case (Cons t ts)
  show ?case
  proof (cases "cancel t")
    case True
    with Cons.prems have "s' = s" by simp
    then have "s' = s\<lparr>connected := connected s, events := events s @ []\<rparr> \<and> list_all connect_event []"
      by simp
    then show ?thesis by blast
  next
    case nc: False
    show ?thesis
    proof (cases "reconnectRateSec s = 0")
      case True
      with nc Cons.prems show ?thesis by simp
    next
      case nz: False
      show ?thesis
      proof (cases "c mod reconnectRateSec s = 0")
        case attempt: True
        show ?thesis
        proof (cases "connect_ok t")
          case True
          with nc nz attempt Cons.prems
          have "s' = s\<lparr>connected := True,
                      events := events s @ [Handler Connect, ConnectedToSimulator,
                                            PostLogMessage ConnectedToSim False]\<rparr>"
            by (auto simp add: emit_def Let_def)
          moreover have "list_all connect_event
                           [Handler Connect, ConnectedToSimulator, PostLogMessage ConnectedToSim False]"
            by simp
          ultimately show ?thesis by blast
        next
          case False
          with nc nz attempt Cons.prems
          have "connectLoop ts 1 (emit (Sleep 1) (emit (Handler Connect) s)) = Inr s'"
            by (simp add: Let_def)
          from Cons.IH [OF this] obtain evs b where
            "s' = (emit (Sleep 1) (emit (Handler Connect) s))
                    \<lparr>connected := b, events := events (emit (Sleep 1) (emit (Handler Connect) s)) @ evs\<rparr>"
            and "list_all connect_event evs" by blast
          then have "s' = s\<lparr>connected := b, events := events s @ (Handler Connect # Sleep 1 # evs)\<rparr>
                     \<and> list_all connect_event (Handler Connect # Sleep 1 # evs)"
            by (simp add: emit_def)
          then show ?thesis by blast
        qed
      next
        case False
        with nc nz Cons.prems
        have "connectLoop ts (c + 1) (emit (Sleep 1) s) = Inr s'" by simp
        from Cons.IH [OF this] obtain evs b where
          "s' = (emit (Sleep 1) s)\<lparr>connected := b, events := events (emit (Sleep 1) s) @ evs\<rparr>"
          and "list_all connect_event evs" by blast
        then have "s' = s\<lparr>connected := b, events := events s @ (Sleep 1 # evs)\<rparr>
                   \<and> list_all connect_event (Sleep 1 # evs)"
          by (simp add: emit_def)
        then show ?thesis by blast
      qed
    qed
  qed
qed

lemma connectToSimulator_effect:
  "connectToSimulator ts s = Inr s' \<Longrightarrow>
   \<exists>evs b. s' = s\<lparr>connected := b, reconnecting := False, events := events s @ evs\<rparr>
           \<and> list_all connect_event evs"
proof -
  assume a: "connectToSimulator ts s = Inr s'"
  let ?s0 = "(emit (PostLogMessage NotConnectedWaiting False) s)\<lparr>reconnecting := True\<rparr>"
  from a obtain s1 where l: "connectLoop ts 0 ?s0 = Inr s1" and s': "s' = s1\<lparr>reconnecting := False\<rparr>"
    by (auto simp add: connectToSimulator_def split: sum.splits)
  from connectLoop_effect [OF l] obtain evs b where
    "s1 = ?s0\<lparr>connected := b, events := events ?s0 @ evs\<rparr>" and "list_all connect_event evs"
    by blast
  with s' have "s' = s\<lparr>connected := b, reconnecting := False,
                        events := events s @ (PostLogMessage NotConnectedWaiting False # evs)\<rparr>
                \<and> list_all connect_event (PostLogMessage NotConnectedWaiting False # evs)"
    by (simp add: emit_def)
  then show ?thesis by blast
qed

section \<open>Requests and waiting\<close>

lemma closeReplay_fields [simp]:
  "loadReplayFile (closeReplay s) = None"
  "saveReplayFile (closeReplay s) = None"
  "events (closeReplay s) = events s"
  "nextPacketId (closeReplay s) = nextPacketId s"
  "weatherRequest (closeReplay s) = weatherRequest s"
  "connected (closeReplay s) = connected s"
  "reconnecting (closeReplay s) = reconnecting s"
  by (simp_all add: closeReplay_def Let_def split: option.splits)

lemma closeReplay_idle: "saveReplayFile s = None \<Longrightarrow> disk (closeReplay s) = disk s"
  by (simp add: closeReplay_def)

lemma closeReplay_disk:
  "saveReplayFile s = Some f \<Longrightarrow> disk (closeReplay s) = (disk s)(out_path f \<mapsto> out_bytes f)"
  by (simp add: closeReplay_def)

lemma setWeatherRequest_fields [simp]:
  "loadReplayFile (setWeatherRequest q s) = loadReplayFile s"
  "saveReplayFile (setWeatherRequest q s) = saveReplayFile s"
  "nextPacketId (setWeatherRequest q s) = nextPacketId s"
  "disk (setWeatherRequest q s) = disk s"
  "connected (setWeatherRequest q s) = connected s"
  "loadReplayFilepath (setWeatherRequest q s) = loadReplayFilepath s"
  "written (events (setWeatherRequest q s)) = written (events s)"
  "weather_fetches (events (setWeatherRequest q s)) = weather_fetches (events s)"
  "replay_reads (events (setWeatherRequest q s)) = replay_reads (events s)"
  "fetch_calls (events (setWeatherRequest q s)) = fetch_calls (events s)"
  by (simp_all add: setWeatherRequest_def)

lemma setWeatherRequest_live:
  "saveReplayFile s = None \<Longrightarrow>
   weatherRequest (setWeatherRequest q s) = q
   \<and> posted (events (setWeatherRequest q s)) = posted (events s)"
  by (simp add: setWeatherRequest_def)

lemma setWeatherRequest_recording:
  "saveReplayFile s \<noteq> None \<Longrightarrow>
   weatherRequest (setWeatherRequest q s) = weatherRequest s
   \<and> posted (events (setWeatherRequest q s)) = posted (events s) @ [SimConnectData_default]"
  by (simp add: setWeatherRequest_def)

lemma submit_all_fields:
  "loadReplayFile (foldl (\<lambda>s' q. setWeatherRequest q s') s qs) = loadReplayFile s
   \<and> saveReplayFile (foldl (\<lambda>s' q. setWeatherRequest q s') s qs) = saveReplayFile s
   \<and> nextPacketId (foldl (\<lambda>s' q. setWeatherRequest q s') s qs) = nextPacketId s
   \<and> disk (foldl (\<lambda>s' q. setWeatherRequest q s') s qs) = disk s
   \<and> loadReplayFilepath (foldl (\<lambda>s' q. setWeatherRequest q s') s qs) = loadReplayFilepath s
   \<and> written (events (foldl (\<lambda>s' q. setWeatherRequest q s') s qs)) = written (events s)
   \<and> weather_fetches (events (foldl (\<lambda>s' q. setWeatherRequest q s') s qs))
       = weather_fetches (events s)
   \<and> replay_reads (events (foldl (\<lambda>s' q. setWeatherRequest q s') s qs)) = replay_reads (events s)
   \<and> fetch_calls (events (foldl (\<lambda>s' q. setWeatherRequest q s') s qs)) = fetch_calls (events s)"
  by (induction qs arbitrary: s) simp_all

lemma wait_fields [simp]:
  "loadReplayFile (wait e s) = loadReplayFile s"
  "saveReplayFile (wait e s) = saveReplayFile s"
  "nextPacketId (wait e s) = nextPacketId s"
  "disk (wait e s) = disk s"
  "loadReplayFilepath (wait e s) = loadReplayFilepath s"
  "written (events (wait e s)) = written (events s)"
  "weather_fetches (events (wait e s)) = weather_fetches (events s)"
  "replay_reads (events (wait e s)) = replay_reads (events s)"
  "fetch_calls (events (wait e s)) = fetch_calls (events s)"
  unfolding wait_def using submit_all_fields [of s "submits e"] by simp_all

lemma wait_no_submits: "submits e = [] \<Longrightarrow> wait e s = s"
  by (simp add: wait_def)

lemma submit_all_playing:
  "saveReplayFile s = None \<Longrightarrow>
   posted (events (foldl (\<lambda>s' q. setWeatherRequest q s') s qs)) = posted (events s)"
  by (induction qs arbitrary: s) (simp_all add: setWeatherRequest_live)

lemma wait_playing:
  "saveReplayFile s = None \<Longrightarrow> posted (events (wait e s)) = posted (events s)"
  unfolding wait_def by (rule submit_all_playing)

lemma submit_all_recording:
  "saveReplayFile s \<noteq> None \<Longrightarrow>
   posted (events (foldl (\<lambda>s' q. setWeatherRequest q s') s qs))
     = posted (events s) @ replicate (length qs) SimConnectData_default
   \<and> weatherRequest (foldl (\<lambda>s' q. setWeatherRequest q s') s qs) = weatherRequest s"
  by (induction qs arbitrary: s)
     (simp_all add: setWeatherRequest_recording replicate_app_Cons_same)

lemma wait_recording:
  "saveReplayFile s \<noteq> None \<Longrightarrow>
   posted (events (wait e s))
     = posted (events s) @ replicate (length (submits e)) SimConnectData_default"
  unfolding wait_def by (simp add: submit_all_recording)

section \<open>Live cycles\<close>

lemma cycle_live_telemetry:
  assumes "loadReplayFile s = None" and "\<not> isValid (weatherRequest s)"
    and "cycle K e s = Inr s'"
  shows "posted (events s') = posted (events s) @ live_packets (nextPacketId s) [e]
         \<and> nextPacketId s' = nextPacketId s + 1
         \<and> loadReplayFile s' = None
         \<and> \<not> isValid (weatherRequest s')
         \<and> weather_fetches (events s') = weather_fetches (events s)"
  using assms
  by (auto simp add: cycle_def fetchData_def Let_def WeatherRequest_default_def
        connect_events_silent
      split: if_splits option.splits dest!: connectToSimulator_effect)

lemma mainLoop_live_telemetry:
  assumes "mainLoop K es s = Inr s'"
    and "loadReplayFile s = None" and "\<not> isValid (weatherRequest s)"
    and "\<forall>e\<in>set es. submits e = []"
  shows "posted (events s') = posted (events s) @ live_packets (nextPacketId s) es
         \<and> nextPacketId s' = nextPacketId s + of_nat (length es)
         \<and> loadReplayFile s' = None
         \<and> \<not> isValid (weatherRequest s')
         \<and> weather_fetches (events s') = weather_fetches (events s)"
  using assms
proof (induction es arbitrary: s)
  case Nil
  then show ?case by simp
next
  case (Cons e es)
  from Cons.prems(1) obtain s1 where c: "cycle K e s = Inr s1"
    and l: "mainLoop K es (wait e s1) = Inr s'"
    by (auto split: sum.splits)
  from Cons.prems(4) have w: "wait e s1 = s1" by (simp add: wait_no_submits)
  note step = cycle_live_telemetry [OF Cons.prems(2) Cons.prems(3) c]
  from Cons.prems(4) have "\<forall>e\<in>set es. submits e = []" by simp
  with Cons.IH [of s1] l w step
  have "posted (events s') = posted (events s1) @ live_packets (nextPacketId s1) es
        \<and> nextPacketId s' = nextPacketId s1 + of_nat (length es)
        \<and> loadReplayFile s' = None \<and> \<not> isValid (weatherRequest s')
        \<and> weather_fetches (events s') = weather_fetches (events s1)"
    by simp
  with step show ?case by (simp add: add.assoc add.commute)
qed

lemma cycle_live_counts:
  assumes "loadReplayFile s = None" and "cycle K e s = Inr s'"
  shows "loadReplayFile s' = None
         \<and> replay_reads (events s') = replay_reads (events s)
         \<and> fetch_calls (events s') = fetch_calls (events s) + 1"
  using assms
  by (auto simp add: cycle_def fetchData_def Let_def connect_events_silent
      split: if_splits option.splits dest!: connectToSimulator_effect)

lemma mainLoop_live_counts:
  assumes "mainLoop K es s = Inr s'" and "loadReplayFile s = None"
  shows "loadReplayFile s' = None
         \<and> replay_reads (events s') = replay_reads (events s)
         \<and> fetch_calls (events s') = fetch_calls (events s) + length es"
  using assms
proof (induction es arbitrary: s)
  case Nil
  then show ?case by simp
next
  case (Cons e es)
  from Cons.prems(1) obtain s1 where c: "cycle K e s = Inr s1"
    and l: "mainLoop K es (wait e s1) = Inr s'"
    by (auto split: sum.splits)
  note step = cycle_live_counts [OF Cons.prems(2) c]
  with Cons.IH [OF l] show ?case by simp
qed

section \<open>What is written\<close>

lemma cycle_written:
  assumes "cycle K e s = Inr s'"
  shows "\<exists>ws. written (events s') = written (events s) @ ws \<and> (\<forall>d\<in>set ws. packetId d \<noteq> 0)"
  using assms
  by (auto simp add: cycle_def fetchData_def Let_def connect_events_silent
      split: if_splits option.splits prod.splits dest!: connectToSimulator_effect)

lemma mainLoop_written:
  assumes "mainLoop K es s = Inr s'"
  shows "\<exists>ws. written (events s') = written (events s) @ ws \<and> (\<forall>d\<in>set ws. packetId d \<noteq> 0)"
  using assms
proof (induction es arbitrary: s)
  case Nil
  then show ?case by simp
next
  case (Cons e es)
  from Cons.prems(1) obtain s1 where c: "cycle K e s = Inr s1"
    and l: "mainLoop K es (wait e s1) = Inr s'"
    by (auto split: sum.splits)
  from cycle_written [OF c] obtain ws where
    1: "written (events s1) = written (events s) @ ws" "\<forall>d\<in>set ws. packetId d \<noteq> 0" by blast
  from Cons.IH [OF l] obtain ws' where
    2: "written (events s') = written (events (wait e s1)) @ ws'" "\<forall>d\<in>set ws'. packetId d \<noteq> 0"
    by blast
  from 1 2 have "written (events s') = written (events s) @ (ws @ ws')
                 \<and> (\<forall>d\<in>set (ws @ ws'). packetId d \<noteq> 0)" by auto
  then show ?case by blast
qed

section \<open>Whole runs\<close>

lemma setupReplay_silent [simp]:
  "posted (events (setupReplay K r w s)) = posted (events s)"
  "written (events (setupReplay K r w s)) = written (events s)"
  "weather_fetches (events (setupReplay K r w s)) = weather_fetches (events s)"
  "replay_reads (events (setupReplay K r w s)) = replay_reads (events s)"
  "fetch_calls (events (setupReplay K r w s)) = fetch_calls (events s)"
  "nextPacketId (setupReplay K r w s) = nextPacketId s"
  "weatherRequest (setupReplay K r w s) = weatherRequest s"
  by (simp_all add: setupReplay_def Let_def closeReplay_def split: option.splits)

lemma run_stages:
  assumes "run K env s = Inr s'"
  obtains s2 s3 where
    "(if loadReplayFile (setupReplay K (open_rd env) (open_wr env) s) = None
      then connectToSimulator (first_connect env) (setupReplay K (open_rd env) (open_wr env) s)
      else Inr ((setupReplay K (open_rd env) (open_wr env) s)\<lparr>connected := True\<rparr>)) = Inr s2"
    and "mainLoop K (cycles env) s2 = Inr s3"
    and "s' = emit DisconnectedFromSimulator
                ((closeReplay s3)\<lparr>connected := False, reconnecting := False\<rparr>)"
  using assms unfolding run_def Let_def by (auto split: sum.splits)

lemma run_start_silent:
  assumes "(if loadReplayFile s1 = None then connectToSimulator ts s1
            else Inr (s1\<lparr>connected := True\<rparr>)) = Inr s2"
  shows "posted (events s2) = posted (events s1) \<and> written (events s2) = written (events s1)
         \<and> weather_fetches (events s2) = weather_fetches (events s1)
         \<and> replay_reads (events s2) = replay_reads (events s1)
         \<and> fetch_calls (events s2) = fetch_calls (events s1)
         \<and> nextPacketId s2 = nextPacketId s1 \<and> weatherRequest s2 = weatherRequest s1
         \<and> loadReplayFile s2 = loadReplayFile s1 \<and> saveReplayFile s2 = saveReplayFile s1
         \<and> disk s2 = disk s1 \<and> loadReplayFilepath s2 = loadReplayFilepath s1"
  using assms
  by (auto simp add: connect_events_silent split: if_splits dest!: connectToSimulator_effect)

lemma run_written:
  assumes "run K env s = Inr s'"
  shows "\<exists>ws. written (events s') = written (events s) @ ws \<and> (\<forall>d\<in>set ws. packetId d \<noteq> 0)"
proof -
  from assms obtain s2 s3 where
    a: "(if loadReplayFile (setupReplay K (open_rd env) (open_wr env) s) = None
      then connectToSimulator (first_connect env) (setupReplay K (open_rd env) (open_wr env) s)
      else Inr ((setupReplay K (open_rd env) (open_wr env) s)\<lparr>connected := True\<rparr>)) = Inr s2"
    and b: "mainLoop K (cycles env) s2 = Inr s3"
    and c: "s' = emit DisconnectedFromSimulator
                ((closeReplay s3)\<lparr>connected := False, reconnecting := False\<rparr>)"
    by (rule run_stages)
  from run_start_silent [OF a] have "written (events s2) = written (events s)" by simp
  moreover from mainLoop_written [OF b] obtain ws where
    "written (events s3) = written (events s2) @ ws" "\<forall>d\<in>set ws. packetId d \<noteq> 0" by blast
  moreover from c have "written (events s') = written (events s3)" by simp
  ultimately show ?thesis by auto
qed

lemmas run_eval =
  run_def setupReplay_def connectToSimulator_def cycle_def fetchData_def closeReplay_def
  emit_def wait_def setWeatherRequest_def Let_def new_thread_def quiet_cycle_def
  connect_at_once_def telemetry_def plain_build_def SimConnectData_default_def
  WeatherRequest_default_def REPLAY_FILE_DATA_START_OFFSET_def

section \<open>Packet ids\<close>

lemma unat_plus_of_nat:
  "unat n + i < 2 ^ 64 \<Longrightarrow> unat (n + of_nat i :: 64 word) = unat n + i"
proof -
  assume a: "unat n + i < 2 ^ 64"
  then have "unat (of_nat i :: 64 word) = i" by (simp add: unat_of_nat)
  with a show ?thesis by (simp add: unat_add_lem [THEN iffD1])
qed

lemma live_packets_ids:
  "map packetId (live_packets n es)
     = map (\<lambda>i. n + of_nat i) (filter (\<lambda>i. fetch_ok (es ! i)) [0..<length es])"
proof (induction es arbitrary: n)
  case Nil
  then show ?case by simp
next
  case (Cons e es)
  have "[0..<length (e # es)] = 0 # map Suc [0..<length es]"
    by (simp add: upt_conv_Cons map_Suc_upt del: upt_Suc)
  then show ?case
    by (simp add: Cons.IH filter_map comp_def add.assoc del: upt_Suc)
qed

lemma live_packets_all_ok:
  "\<forall>e\<in>set es. fetch_ok e \<Longrightarrow>
   map packetId (live_packets n es) = map (\<lambda>i. n + of_nat i) [0..<length es]"
proof -
  assume "\<forall>e\<in>set es. fetch_ok e"
  then have "filter (\<lambda>i. fetch_ok (es ! i)) [0..<length es] = [0..<length es]"
    by (simp add: filter_id_conv)
  then show ?thesis by (simp add: live_packets_ids)
qed

lemma live_packets_increasing:
  assumes "unat n + length es \<le> 2 ^ 64"
  shows "sorted_wrt (<) (map packetId (live_packets n es))"
proof -
  have "sorted_wrt (<) (filter (\<lambda>i. fetch_ok (es ! i)) [0..<length es])"
    by (rule sorted_wrt_filter) simp
  then have "sorted_wrt (\<lambda>i j. n + of_nat i < n + of_nat j)
               (filter (\<lambda>i. fetch_ok (es ! i)) [0..<length es])"
  proof (rule sorted_wrt_mono_rel [rotated])
    fix i j
    assume "i \<in> set (filter (\<lambda>i. fetch_ok (es ! i)) [0..<length es])"
      and "j \<in> set (filter (\<lambda>i. fetch_ok (es ! i)) [0..<length es])" and "i < j"
    with assms have "unat n + i < 2 ^ 64" "unat n + j < 2 ^ 64" by auto
    with \<open>i < j\<close> show "n + of_nat i < n + of_nat j"
      by (simp add: word_less_nat_alt unat_plus_of_nat)
  qed
  then show ?thesis by (simp add: live_packets_ids sorted_wrt_map)
qed

lemma live_packets_skips_failed:
  assumes "i < length es" and "\<not> fetch_ok (es ! i)" and "length es \<le> 2 ^ 64"
  shows "n + of_nat i \<notin> packetId ` set (live_packets n es)"
proof
  assume "n + of_nat i \<in> packetId ` set (live_packets n es)"
  then have "n + of_nat i \<in> set (map packetId (live_packets n es))" by simp
  then obtain j where j: "j < length es" "fetch_ok (es ! j)" "n + of_nat i = n + of_nat j"
    unfolding live_packets_ids by auto
  from j(3) have "(of_nat i :: 64 word) = of_nat j" by simp
  then have "unat (of_nat i :: 64 word) = unat (of_nat j :: 64 word)" by simp
  with assms(1,3) j(1) have "i = j" by (simp add: unat_of_nat)
  with assms(2) j(2) show False by simp
qed

lemma setupReplay_no_playback [simp]:
  "loadReplayFilepath s = [] \<Longrightarrow> loadReplayFile (setupReplay K r w s) = loadReplayFile s"
  by (simp add: setupReplay_def Let_def)

lemma run_live_telemetry:
  assumes "run K env s = Inr s'"
    and "loadReplayFilepath s = []" and "loadReplayFile s = None"
    and "\<not> isValid (weatherRequest s)" and "\<forall>e\<in>set (cycles env). submits e = []"
  shows "posted (events s') = posted (events s) @ live_packets (nextPacketId s) (cycles env)
         \<and> nextPacketId s' = nextPacketId s + of_nat (length (cycles env))"
proof -
  let ?s1 = "setupReplay K (open_rd env) (open_wr env) s"
  from assms(1) obtain s2 s3 where
    a: "(if loadReplayFile ?s1 = None then connectToSimulator (first_connect env) ?s1
         else Inr (?s1\<lparr>connected := True\<rparr>)) = Inr s2"
    and b: "mainLoop K (cycles env) s2 = Inr s3"
    and c: "s' = emit DisconnectedFromSimulator
                ((closeReplay s3)\<lparr>connected := False, reconnecting := False\<rparr>)"
    by (rule run_stages)
  note start = run_start_silent [OF a]
  from start assms(2,3,4) have "loadReplayFile s2 = None" "\<not> isValid (weatherRequest s2)"
    by simp_all
  from mainLoop_live_telemetry [OF b this assms(5)] start c show ?thesis by simp
qed

section \<open>Example files\<close>

lemmas file_eval =
  recorded_file_def replay_header_def plain_write_def put32_def put64_def put_string_def
  put_metar_def playback_thread_def get32_def file_bytes_def header_accepted_def header_error_def

section \<open>The header of a playback file\<close>

lemma setupReplay_rejected:
  assumes "loadReplayFilepath s \<noteq> []"
    and "\<not> header_accepted K (file_bytes s (loadReplayFilepath s))"
  shows "loadReplayFile (setupReplay K True w s) = None"
    and "saveReplayFile (setupReplay K True w s) = None"
    and "events (setupReplay K True w s)
           = events s @ [PostLogMessage
                (header_error K (loadReplayFilepath s) (file_bytes s (loadReplayFilepath s))) True]"
  using assms
  by (auto simp add: setupReplay_def Let_def header_accepted_def header_error_def file_bytes_def
        REPLAY_FILE_DATA_START_OFFSET_def closeReplay_def split: option.splits)

lemma setupReplay_accepted:
  assumes "loadReplayFilepath s \<noteq> []"
    and "header_accepted K (file_bytes s (loadReplayFilepath s))"
  shows "loadReplayFile (setupReplay K True w s)
           = Some \<lparr>in_bytes = file_bytes s (loadReplayFilepath s),
                   in_rest = drop 12 (file_bytes s (loadReplayFilepath s))\<rparr>"
    and "saveReplayFile (setupReplay K True w s) = saveReplayFile s"
    and "events (setupReplay K True w s)
           = events s @ [PostLogMessage (ReplayingFrom (loadReplayFilepath s)) False,
                         ConnectedToSimulator]"
    and "loadReplayFilepath (setupReplay K True w s) = loadReplayFilepath s"
  using assms
  by (auto simp add: setupReplay_def Let_def header_accepted_def file_bytes_def
        REPLAY_FILE_DATA_START_OFFSET_def split: option.splits)

lemma connectToSimulator_announces:
  assumes "connectToSimulator ts s = Inr s'"
  shows "PostLogMessage NotConnectedWaiting False \<in> set (events s')"
proof -
  let ?s0 = "(emit (PostLogMessage NotConnectedWaiting False) s)\<lparr>reconnecting := True\<rparr>"
  from assms obtain s1 where l: "connectLoop ts 0 ?s0 = Inr s1" and s': "s' = s1\<lparr>reconnecting := False\<rparr>"
    by (auto simp add: connectToSimulator_def split: sum.splits)
  from connectLoop_effect [OF l] obtain evs b where
    "s1 = ?s0\<lparr>connected := b, events := events ?s0 @ evs\<rparr>" by blast
  with s' have "events s' = events s @ PostLogMessage NotConnectedWaiting False # evs"
    by (simp add: emit_def)
  then show ?thesis by simp
qed

lemma cycle_events_grow:
  "cycle K e s = Inr s' \<Longrightarrow> \<exists>evs. events s' = events s @ evs"
  by (auto simp add: cycle_def fetchData_def Let_def
      split: if_splits option.splits prod.splits dest!: connectToSimulator_effect)

lemma submit_all_events_grow:
  "\<exists>evs. events (foldl (\<lambda>s' q. setWeatherRequest q s') s qs) = events s @ evs"
proof (induction qs arbitrary: s)
  case Nil
  then show ?case by simp
next
  case (Cons q qs)
  from Cons [of "setWeatherRequest q s"] show ?case
    by (auto simp add: setWeatherRequest_def)
qed

lemma mainLoop_events_grow:
  "mainLoop K es s = Inr s' \<Longrightarrow> \<exists>evs. events s' = events s @ evs"
proof (induction es arbitrary: s)
  case Nil
  then show ?case by simp
next
  case (Cons e es)
  from Cons.prems obtain s1 where c: "cycle K e s = Inr s1"
    and l: "mainLoop K es (wait e s1) = Inr s'"
    by (auto split: sum.splits)
  from cycle_events_grow [OF c] obtain evs1 where "events s1 = events s @ evs1" by blast
  moreover from submit_all_events_grow [of s1 "submits e"] obtain evs2
    where "events (wait e s1) = events s1 @ evs2" by (auto simp add: wait_def)
  moreover from Cons.IH [OF l] obtain evs3 where "events s' = events (wait e s1) @ evs3" by blast
  ultimately have "events s' = events s @ (evs1 @ evs2 @ evs3)" by simp
  then show ?case by blast
qed

lemma run_without_playback:
  assumes "run K env s = Inr s'"
    and "loadReplayFile (setupReplay K (open_rd env) (open_wr env) s) = None"
  shows "replay_reads (events s') = replay_reads (events s)"
    and "fetch_calls (events s') = fetch_calls (events s) + length (cycles env)"
    and "PostLogMessage NotConnectedWaiting False \<in> set (events s')"
proof -
  let ?s1 = "setupReplay K (open_rd env) (open_wr env) s"
  from assms(1) obtain s2 s3 where
    a: "(if loadReplayFile ?s1 = None then connectToSimulator (first_connect env) ?s1
         else Inr (?s1\<lparr>connected := True\<rparr>)) = Inr s2"
    and b: "mainLoop K (cycles env) s2 = Inr s3"
    and c: "s' = emit DisconnectedFromSimulator
                ((closeReplay s3)\<lparr>connected := False, reconnecting := False\<rparr>)"
    by (rule run_stages)
  note start = run_start_silent [OF a]
  with assms(2) have n: "loadReplayFile s2 = None" by simp
  from mainLoop_live_counts [OF b n] start c
  show "replay_reads (events s') = replay_reads (events s)"
    and "fetch_calls (events s') = fetch_calls (events s) + length (cycles env)"
    by simp_all
  from a assms(2) have "connectToSimulator (first_connect env) ?s1 = Inr s2" by simp
  then have "PostLogMessage NotConnectedWaiting False \<in> set (events s2)"
    by (rule connectToSimulator_announces)
  moreover from mainLoop_events_grow [OF b] obtain evs where "events s3 = events s2 @ evs"
    by blast
  ultimately show "PostLogMessage NotConnectedWaiting False \<in> set (events s')"
    using c by simp
qed

section \<open>A malformed record\<close>

lemma cycle_replay_error:
  assumes "loadReplayFile s = Some f" and "status (fst (sc_read K (in_rest f))) \<noteq> OK"
  shows "\<exists>s1. cycle K e s = Inr s1 \<and> loadReplayFile s1 = None
           \<and> events s1 = events s @ [ReadReplay, PostLogMessage
                (ErrorReading (loadReplayFilepath s) (statusText (fst (sc_read K (in_rest f)))))
                True]"
  using assms by (cases "sc_read K (in_rest f)") (simp add: cycle_def Let_def)

section \<open>Servicing a weather request\<close>

lemma cycle_live_weather:
  assumes "loadReplayFile s = None" and "isValid (weatherRequest s)"
  shows "\<exists>s1. cycle K e s = Inr s1
           \<and> weather_fetches (events s1) = weather_fetches (events s) @ [weatherRequest s]
           \<and> weatherRequest s1 = WeatherRequest_default \<and> loadReplayFile s1 = None"
  using assms
  by (auto simp add: cycle_def fetchData_def Let_def split: option.splits)

section \<open>The reconnect loop under cancellation\<close>

lemma connectLoop_cancel:
  assumes "\<forall>p\<in>set pre. \<not> cancel p \<and> \<not> connect_ok p" and "cancel t"
    and "reconnectRateSec s \<noteq> 0"
  shows "connectLoop pre c s = Inl StillWaiting
         \<and> (\<exists>s'. connectLoop (pre @ t # post) c s = Inr s'
               \<and> slept (events s') = slept (events s) + length pre
               \<and> connected s' = connected s \<and> reconnecting s' = reconnecting s
               \<and> (pre \<noteq> [] \<longrightarrow> last (events s') = Sleep 1))"
  using assms
proof (induction pre arbitrary: c s)
  case Nil
  then show ?case by simp
next
  case (Cons p pre)
  let ?s1 = "if c mod reconnectRateSec s = 0 then emit (Sleep 1) (emit (Handler Connect) s)
             else emit (Sleep 1) s"
  let ?c1 = "if c mod reconnectRateSec s = 0 then 1 else c + 1"
  from Cons.prems have p: "\<not> cancel p" "\<not> connect_ok p" by simp_all
  with Cons.prems(3) have step: "connectLoop (p # ts) c s = connectLoop ts ?c1 ?s1" for ts
    by (simp add: Let_def)
  from Cons.prems have a: "\<forall>p\<in>set pre. \<not> cancel p \<and> \<not> connect_ok p" by simp
  from Cons.prems(3) have b: "reconnectRateSec ?s1 \<noteq> 0" by simp
  note ih = Cons.IH [OF a Cons.prems(2) b, of ?c1]
  from ih obtain s' where w: "connectLoop pre ?c1 ?s1 = Inl StillWaiting"
    and r: "connectLoop (pre @ t # post) ?c1 ?s1 = Inr s'"
    and sl: "slept (events s') = slept (events ?s1) + length pre"
    and f: "connected s' = connected ?s1" "reconnecting s' = reconnecting ?s1"
    and la: "pre \<noteq> [] \<longrightarrow> last (events s') = Sleep 1"
    by blast
  have "last (events s') = Sleep 1"
  proof (cases pre)
    case Nil
    with r Cons.prems(2) have "s' = ?s1" by simp
    then show ?thesis by simp
  next
    case (Cons a list)
    with la show ?thesis by simp
  qed
  moreover have "slept (events ?s1) = slept (events s) + 1" by simp
  ultimately have "connectLoop ((p # pre) @ t # post) c s = Inr s'
      \<and> slept (events s') = slept (events s) + length (p # pre)
      \<and> connected s' = connected s \<and> reconnecting s' = reconnecting s
      \<and> (p # pre \<noteq> [] \<longrightarrow> last (events s') = Sleep 1)"
    using r sl f step [of "pre @ t # post"] by simp
  moreover from w step [of pre] have "connectLoop (p # pre) c s = Inl StillWaiting" by simp
  ultimately show ?case by blast
qed

section \<open>Round trip of the record format\<close>

lemma length_put32 [simp]: "length (put32 w) = 4"
  by (simp add: put32_def)

lemma get32_put32 [simp]: "get32 (put32 w @ rest) = w"
  unfolding get32_def put32_def
  apply simp
  apply (rule bit_word_eqI)
  apply (auto simp add: bit_simps)
  subgoal for n by (cases "16 \<le> n") auto
  subgoal for n by (cases "16 \<le> n") auto
  done

lemma get32_take4 [simp]: "get32 (take 4 bs) = get32 bs"
  by (simp add: get32_def)

lemma take_bytes_append [simp]: "take_bytes (length xs) (xs @ rest) = Some (xs, rest)"
  by (simp add: take_bytes_def)

lemma take32_put32 [simp]: "take32 (put32 w @ rest) = Some (w, rest)"
  using take_bytes_append [of "put32 w" rest] get32_put32 [of w "[]"]
  by (simp add: take32_def)

lemma get64_put64: "get64 (put64 w @ rest) = w"
proof -
  have "get64 (put64 w @ rest)
          = push_bit 32 (ucast (ucast (drop_bit 32 w) :: 32 word)) OR ucast (ucast w :: 32 word)"
    by (simp add: get64_def put64_def)
  also have "\<dots> = w"
    by (rule bit_word_eqI) (auto simp add: bit_simps)
  finally show ?thesis .
qed

lemma length_put64 [simp]: "length (put64 w) = 8"
  by (simp add: put64_def)

lemma take64_put64 [simp]: "take64 (put64 w @ rest) = Some (w, rest)"
  using take_bytes_append [of "put64 w" rest] get64_put64 [of w "[]"]
  by (simp add: take64_def)

lemma byte_of_char [simp]: "char_of (unat (of_nat (of_char c) :: 8 word)) = c"
  by (simp add: unat_of_nat)

lemma unat_length32: "n < 2 ^ 32 \<Longrightarrow> unat (of_nat n :: 32 word) = n"
  by (simp add: unat_of_nat)

lemma take_string_put_string:
  "length cs < 2 ^ 32 \<Longrightarrow> take_string (put_string cs @ rest) = Some (cs, rest)"
  using take_bytes_append [of "map (\<lambda>c. of_nat (of_char c) :: byte) cs" rest]
  by (simp add: take_string_def put_string_def unat_length32 comp_def)

lemma take_metars_put:
  "list_all (\<lambda>kv. length (fst kv) < 2 ^ 32 \<and> length (snd kv) < 2 ^ 32) ms \<Longrightarrow>
   take_metars (length ms) (concat (map put_metar ms) @ rest) = Some (ms, rest)"
  by (induction ms) (simp_all add: put_metar_def take_string_put_string)

lemma plain_parse_write:
  assumes "plain_packet d"
  shows "plain_parse (plain_write d @ rest) = Some (d, rest)"
proof (cases "status d")
  case OK
  with assms show ?thesis
    using take_bytes_append [of "payload d" rest]
    by (simp add: plain_parse_def plain_write_def plain_packet_def take_status_def
          take_metars_put unat_length32)
next
  case ERROR
  with assms show ?thesis
    using take_bytes_append [of "payload d" rest]
    by (simp add: plain_parse_def plain_write_def plain_packet_def take_status_def
          take_string_put_string take_metars_put unat_length32)
qed

lemma plain_read_write:
  "plain_packet d \<Longrightarrow> plain_read (plain_write d @ rest) = (d, rest)"
  by (simp add: plain_read_def plain_parse_write)

lemma plain_write_not_empty: "plain_write d \<noteq> []"
  by (cases "status d") (simp_all add: plain_write_def)

section \<open>Recording\<close>

lemma cycle_recording:
  assumes "loadReplayFile s = None" and "saveReplayFile s = Some f" and "cycle K e s = Inr s'"
  shows "\<exists>ds. posted (events s') = posted (events s) @ ds
           \<and> saveReplayFile s'
               = Some (f\<lparr>out_bytes := out_bytes f
                     @ concat (map (sc_write K) (filter (\<lambda>d. packetId d \<noteq> 0) ds))\<rparr>)
           \<and> loadReplayFile s' = None \<and> disk s' = disk s"
  using assms
  by (auto simp add: cycle_def fetchData_def Let_def connect_events_silent word_gt_0
      split: if_splits prod.splits dest!: connectToSimulator_effect)

lemma wait_recording_file:
  assumes "saveReplayFile s = Some f"
  shows "\<exists>ds. posted (events (wait e s)) = posted (events s) @ ds
           \<and> filter (\<lambda>d. packetId d \<noteq> 0) ds = []"
proof -
  from assms have "saveReplayFile s \<noteq> None" by simp
  from wait_recording [OF this, of e]
  have "posted (events (wait e s))
          = posted (events s) @ replicate (length (submits e)) SimConnectData_default" .
  moreover have "filter (\<lambda>d. packetId d \<noteq> 0)
                   (replicate (length (submits e)) SimConnectData_default) = []"
    by (simp add: SimConnectData_default_def)
  ultimately show ?thesis by blast
qed

lemma mainLoop_recording:
  assumes "mainLoop K es s = Inr s'" and "loadReplayFile s = None" and "saveReplayFile s = Some f"
  shows "\<exists>ds. posted (events s') = posted (events s) @ ds
           \<and> saveReplayFile s'
               = Some (f\<lparr>out_bytes := out_bytes f
                     @ concat (map (sc_write K) (filter (\<lambda>d. packetId d \<noteq> 0) ds))\<rparr>)
           \<and> loadReplayFile s' = None \<and> disk s' = disk s"
  using assms
proof (induction es arbitrary: s f)
  case Nil
  then have "posted (events s') = posted (events s) @ []
     \<and> saveReplayFile s' = Some (f\<lparr>out_bytes := out_bytes f
           @ concat (map (sc_write K) (filter (\<lambda>d. packetId d \<noteq> 0) []))\<rparr>)
     \<and> loadReplayFile s' = None \<and> disk s' = disk s" by simp
  then show ?case by blast
next
  case (Cons e es)
  from Cons.prems(1) obtain s1 where c: "cycle K e s = Inr s1"
    and l: "mainLoop K es (wait e s1) = Inr s'"
    by (auto split: sum.splits)
  let ?nz = "filter (\<lambda>d. packetId d \<noteq> 0)"
  from cycle_recording [OF Cons.prems(2,3) c] obtain ds1 where
    1: "posted (events s1) = posted (events s) @ ds1"
    "saveReplayFile s1 = Some (f\<lparr>out_bytes := out_bytes f @ concat (map (sc_write K) (?nz ds1))\<rparr>)"
    "loadReplayFile s1 = None" "disk s1 = disk s" by blast
  let ?f1 = "f\<lparr>out_bytes := out_bytes f @ concat (map (sc_write K) (?nz ds1))\<rparr>"
  from wait_recording_file [OF 1(2), of e] obtain ds2 where
    2: "posted (events (wait e s1)) = posted (events s1) @ ds2" "?nz ds2 = []" by blast
  from 1 have w: "loadReplayFile (wait e s1) = None" "saveReplayFile (wait e s1) = Some ?f1"
    by simp_all
  from Cons.IH [OF l w] obtain ds3 where
    3: "posted (events s') = posted (events (wait e s1)) @ ds3"
    "saveReplayFile s' = Some (?f1\<lparr>out_bytes := out_bytes ?f1 @ concat (map (sc_write K) (?nz ds3))\<rparr>)"
    "loadReplayFile s' = None" "disk s' = disk (wait e s1)" by blast
  from 1 2 3 have "posted (events s') = posted (events s) @ (ds1 @ ds2 @ ds3)
     \<and> saveReplayFile s' = Some (f\<lparr>out_bytes := out_bytes f
           @ concat (map (sc_write K) (?nz (ds1 @ ds2 @ ds3)))\<rparr>)
     \<and> loadReplayFile s' = None \<and> disk s' = disk s" by simp
  then show ?case by blast
qed

lemma setupReplay_recording:
  assumes "loadReplayFilepath s = []" and "saveReplayFilepath s \<noteq> []"
  shows "saveReplayFile (setupReplay K r True s)
           = Some \<lparr>out_path = saveReplayFilepath s,
                   out_bytes = replay_header K (word_of_int (updateRate s))\<rparr>"
  using assms by (simp add: setupReplay_def Let_def replay_header_def)

lemma run_recording:
  assumes "run K env s = Inr s'" and "open_wr env"
    and "loadReplayFilepath s = []" and "loadReplayFile s = None"
    and "saveReplayFilepath s \<noteq> []"
  shows "\<exists>ds. posted (events s') = posted (events s) @ ds
           \<and> disk s' (saveReplayFilepath s)
               = Some (replay_header K (word_of_int (updateRate s))
                       @ concat (map (sc_write K) (filter (\<lambda>d. packetId d \<noteq> 0) ds)))"
proof -
  let ?s1 = "setupReplay K (open_rd env) (open_wr env) s"
  let ?f = "\<lparr>out_path = saveReplayFilepath s,
             out_bytes = replay_header K (word_of_int (updateRate s))\<rparr>"
  from assms(1) obtain s2 s3 where
    a: "(if loadReplayFile ?s1 = None then connectToSimulator (first_connect env) ?s1
         else Inr (?s1\<lparr>connected := True\<rparr>)) = Inr s2"
    and b: "mainLoop K (cycles env) s2 = Inr s3"
    and c: "s' = emit DisconnectedFromSimulator
                ((closeReplay s3)\<lparr>connected := False, reconnecting := False\<rparr>)"
    by (rule run_stages)
  note start = run_start_silent [OF a]
  from assms(2,3,5) have f: "saveReplayFile ?s1 = Some ?f"
    by (simp add: setupReplay_recording)
  from start assms(3,4) f have "loadReplayFile s2 = None" "saveReplayFile s2 = Some ?f"
    by simp_all
  from mainLoop_recording [OF b this] obtain ds where
    d: "posted (events s3) = posted (events s2) @ ds"
    "saveReplayFile s3 = Some (?f\<lparr>out_bytes := out_bytes ?f
        @ concat (map (sc_write K) (filter (\<lambda>d. packetId d \<noteq> 0) ds))\<rparr>)"
    by blast
  from c d(2) have "disk s' (saveReplayFilepath s)
      = Some (replay_header K (word_of_int (updateRate s))
              @ concat (map (sc_write K) (filter (\<lambda>d. packetId d \<noteq> 0) ds)))"
    by (simp add: emit_def closeReplay_def)
  moreover from c d(1) start have "posted (events s') = posted (events s) @ ds" by simp
  ultimately show ?thesis by blast
qed

section \<open>Playback\<close>

lemma records_empty:
  assumes "\<forall>d\<in>set P. replayable K d"
  shows "concat (map (sc_write K) (drop k P)) = [] \<longleftrightarrow> length P \<le> k"
proof (cases "k < length P")
  case True
  then have "drop k P = P ! k # drop (Suc k) P" by (simp add: Cons_nth_drop_Suc)
  moreover from True assms have "sc_write K (P ! k) \<noteq> []" by (simp add: replayable_def)
  ultimately show ?thesis using True by simp
next
  case False
  then show ?thesis by simp
qed

lemma cycle_playback:
  assumes "loadReplayFile s = Some \<lparr>in_bytes = hdr @ concat (map (sc_write K) P),
                                    in_rest = concat (map (sc_write K) (drop k P))\<rparr>"
    and "length hdr = 12" and "k < length P" and "\<forall>d\<in>set P. replayable K d"
  shows "\<exists>s'. cycle K e s = Inr s'
           \<and> posted (events s') = posted (events s) @ [P ! k]
           \<and> loadReplayFile s'
               = Some \<lparr>in_bytes = hdr @ concat (map (sc_write K) P),
                       in_rest = concat (map (sc_write K) (drop (Suc k mod length P) P))\<rparr>
           \<and> saveReplayFile s' = saveReplayFile s"
proof -
  define rest where "rest = concat (map (sc_write K) (drop (Suc k) P))"
  define body where "body = concat (map (sc_write K) P)"
  from assms(3) have "drop k P = P ! k # drop (Suc k) P" by (simp add: Cons_nth_drop_Suc)
  then have d: "concat (map (sc_write K) (drop k P)) = sc_write K (P ! k) @ rest"
    by (simp add: rest_def)
  from assms(3,4) have r: "replayable K (P ! k)" by simp
  then have rd: "sc_read K (sc_write K (P ! k) @ rest) = (P ! k, rest)"
    and ok: "status (P ! k) = OK" by (simp_all add: replayable_def)
  from records_empty [OF assms(4), of "Suc k"] have e: "rest = [] \<longleftrightarrow> length P \<le> Suc k"
    by (simp only: rest_def)
  from assms(1) d have f: "loadReplayFile s = Some \<lparr>in_bytes = hdr @ body,
                                    in_rest = sc_write K (P ! k) @ rest\<rparr>"
    by (simp only: body_def)
  show ?thesis
  proof (cases "Suc k < length P")
    case True
    with e have "rest \<noteq> []" by simp
    with f rd ok have "\<exists>s'. cycle K e s = Inr s'
           \<and> posted (events s') = posted (events s) @ [P ! k]
           \<and> loadReplayFile s' = Some \<lparr>in_bytes = hdr @ body, in_rest = rest\<rparr>
           \<and> saveReplayFile s' = saveReplayFile s"
      by (simp add: cycle_def Let_def)
    moreover from True have "Suc k mod length P = Suc k" by simp
    ultimately show ?thesis by (simp only: body_def rest_def)
  next
    case False
    with assms(3) have l: "Suc k = length P" by simp
    with e have "rest = []" by simp
    with f assms(2) rd ok have "\<exists>s'. cycle K e s = Inr s'
           \<and> posted (events s') = posted (events s) @ [P ! k]
           \<and> loadReplayFile s' = Some \<lparr>in_bytes = hdr @ body, in_rest = body\<rparr>
           \<and> saveReplayFile s' = saveReplayFile s"
      by (simp add: cycle_def Let_def REPLAY_FILE_DATA_START_OFFSET_def)
    moreover from l have "drop (Suc k mod length P) P = P" by simp
    ultimately show ?thesis by (simp only: body_def)
  qed
qed

lemma mainLoop_playback:
  assumes "loadReplayFile s = Some \<lparr>in_bytes = hdr @ concat (map (sc_write K) P),
                                    in_rest = concat (map (sc_write K) (drop k P))\<rparr>"
    and "length hdr = 12" and "k < length P" and "\<forall>d\<in>set P. replayable K d"
    and "saveReplayFile s = None"
  shows "\<exists>s'. mainLoop K es s = Inr s'
           \<and> posted (events s')
               = posted (events s) @ map (\<lambda>i. P ! ((k + i) mod length P)) [0..<length es]"
  using assms(1,3,5)
proof (induction es arbitrary: s k)
  case Nil
  then show ?case by simp
next
  case (Cons e es)
  let ?k1 = "Suc k mod length P"
  from cycle_playback [OF Cons.prems(1) assms(2) Cons.prems(2) assms(4), of e]
  obtain s1 where c: "cycle K e s = Inr s1"
    and p: "posted (events s1) = posted (events s) @ [P ! k]"
    and f: "loadReplayFile s1
              = Some \<lparr>in_bytes = hdr @ concat (map (sc_write K) P),
                      in_rest = concat (map (sc_write K) (drop ?k1 P))\<rparr>"
    and sv: "saveReplayFile s1 = saveReplayFile s" by blast
  from Cons.prems(2) have "0 < length P" by (cases P) simp_all
  then have k1: "?k1 < length P" by simp
  from f have f': "loadReplayFile (wait e s1)
              = Some \<lparr>in_bytes = hdr @ concat (map (sc_write K) P),
                      in_rest = concat (map (sc_write K) (drop ?k1 P))\<rparr>" by simp
  from sv Cons.prems(3) have sv': "saveReplayFile (wait e s1) = None" by simp
  from Cons.IH [OF f' k1 sv'] obtain s' where l: "mainLoop K es (wait e s1) = Inr s'"
    and p': "posted (events s') = posted (events (wait e s1))
               @ map (\<lambda>i. P ! ((?k1 + i) mod length P)) [0..<length es]" by blast
  from sv Cons.prems(3) have "posted (events (wait e s1)) = posted (events s1)"
    by (simp add: wait_playing)
  with p p' have "posted (events s') = posted (events s)
      @ P ! k # map (\<lambda>i. P ! ((?k1 + i) mod length P)) [0..<length es]" by simp
  moreover have "map (\<lambda>i. P ! ((k + i) mod length P)) [0..<length (e # es)]
      = P ! k # map (\<lambda>i. P ! ((?k1 + i) mod length P)) [0..<length es]"
  proof -
    have "[0..<length (e # es)] = 0 # map Suc [0..<length es]"
      by (simp add: upt_conv_Cons map_Suc_upt del: upt_Suc)
    moreover have "(k + Suc i) mod length P = (?k1 + i) mod length P" for i
      by (simp add: mod_add_left_eq)
    ultimately show ?thesis using Cons.prems(2) by (simp add: comp_def del: upt_Suc)
  qed
  ultimately show ?case using c l by simp
qed

lemma header_of_recording_accepted:
  assumes "body \<noteq> []"
  shows "header_accepted K (replay_header K rate @ body)"
  using assms by (simp add: header_accepted_def replay_header_def)

lemma run_playback:
  assumes "loadReplayFilepath t \<noteq> []"
    and "disk t (loadReplayFilepath t) = Some (replay_header K rate @ concat (map (sc_write K) P))"
    and "P \<noteq> []" and "\<forall>d\<in>set P. replayable K d"
    and "saveReplayFile t = None" and "open_rd env"
  shows "\<exists>t'. run K env t = Inr t'
           \<and> posted (events t')
               = posted (events t) @ map (\<lambda>i. P ! (i mod length P)) [0..<length (cycles env)]"
proof -
  let ?bytes = "replay_header K rate @ concat (map (sc_write K) P)"
  let ?t1 = "setupReplay K (open_rd env) (open_wr env) t"
  from assms(2) have fb: "file_bytes t (loadReplayFilepath t) = ?bytes"
    by (simp add: file_bytes_def)
  from records_empty [OF assms(4), of 0] assms(3)
  have ne: "concat (map (sc_write K) P) \<noteq> []" by simp
  then have acc: "header_accepted K (file_bytes t (loadReplayFilepath t))"
    unfolding fb by (rule header_of_recording_accepted)
  have hl: "length (replay_header K rate) = 12" by (simp add: replay_header_def)
  from setupReplay_accepted [OF assms(1) acc, of "open_wr env"] assms(5,6) fb hl
  have f: "loadReplayFile ?t1 = Some \<lparr>in_bytes = ?bytes,
                                      in_rest = concat (map (sc_write K) (drop 0 P))\<rparr>"
    and sv: "saveReplayFile ?t1 = None"
    by simp_all
  let ?t2 = "?t1\<lparr>connected := True\<rparr>"
  from f sv have f2: "loadReplayFile ?t2 = Some \<lparr>in_bytes = ?bytes,
                                      in_rest = concat (map (sc_write K) (drop 0 P))\<rparr>"
    and sv2: "saveReplayFile ?t2 = None" by simp_all
  from assms(3) have "0 < length P" by simp
  from mainLoop_playback [OF f2 hl this assms(4) sv2, of "cycles env"]
  obtain t3 where l: "mainLoop K (cycles env) ?t2 = Inr t3"
    and p: "posted (events t3) = posted (events ?t2)
              @ map (\<lambda>i. P ! ((0 + i) mod length P)) [0..<length (cycles env)]" by blast
  from f l have "run K env t = Inr (emit DisconnectedFromSimulator
                ((closeReplay t3)\<lparr>connected := False, reconnecting := False\<rparr>))"
    by (simp add: run_def Let_def)
  moreover from p have "posted (events (emit DisconnectedFromSimulator
                ((closeReplay t3)\<lparr>connected := False, reconnecting := False\<rparr>)))
      = posted (events t) @ map (\<lambda>i. P ! (i mod length P)) [0..<length (cycles env)]"
    by simp
  ultimately show ?thesis by blast
qed

section \<open>The trace of live cycles\<close>



lemma pending_after_Cons [simp]: "pending_after v (q # qs) = pending_after (isValid q) qs"
  by (simp add: pending_after_def)

lemma pending_after_Nil [simp]: "pending_after v [] = v"
  by (simp add: pending_after_def)




section \<open>After a format error\<close>






lemma submit_events_silent [simp]:
  "posted (submit_events qs) = []" "replay_reads (submit_events qs) = 0"
  "fetch_calls (submit_events qs) = 0"
  by (induction qs) (simp_all add: submit_events_def)

section \<open>Two requests in live mode\<close>

lemma live_latest_request_wins:
  assumes "saveReplayFile s = None" and "loadReplayFile s = None" and "isValid q2"
    and "\<forall>c\<in>set (e # es). submits c = []"
    and "mainLoop K (e # es) (setWeatherRequest q2 (setWeatherRequest q1 s)) = Inr s'"
  shows "weatherRequest (setWeatherRequest q1 s) = q1
         \<and> weatherRequest (setWeatherRequest q2 (setWeatherRequest q1 s)) = q2
         \<and> (\<exists>s1. cycle K e (setWeatherRequest q2 (setWeatherRequest q1 s)) = Inr s1
                \<and> weatherRequest s1 = WeatherRequest_default)
         \<and> weather_fetches (events s') = weather_fetches (events s) @ [q2]
         \<and> \<not> isValid (weatherRequest s')"
proof -
  let ?s2 = "setWeatherRequest q2 (setWeatherRequest q1 s)"
  from assms(1) have q1: "weatherRequest (setWeatherRequest q1 s) = q1"
    by (simp add: setWeatherRequest_live)
  from assms(1) have q2: "weatherRequest ?s2 = q2"
    by (simp add: setWeatherRequest_live)
  from assms(2) have n: "loadReplayFile ?s2 = None" by simp
  from q2 assms(3) have v: "isValid (weatherRequest ?s2)" by simp
  from cycle_live_weather [OF n v, of K e] q2 obtain s1 where
    c: "cycle K e ?s2 = Inr s1"
    and f: "weather_fetches (events s1) = weather_fetches (events s) @ [q2]"
    and d: "weatherRequest s1 = WeatherRequest_default" and n1: "loadReplayFile s1 = None"
    by auto
  from assms(4) have w: "wait e s1 = s1" by (simp add: wait_no_submits)
  from assms(5) c w have l: "mainLoop K es s1 = Inr s'" by simp
  from d have nv: "\<not> isValid (weatherRequest s1)" by (simp add: WeatherRequest_default_def)
  from assms(4) have "\<forall>c\<in>set es. submits c = []" by simp
  from mainLoop_live_telemetry [OF l n1 nv this] f
  have "weather_fetches (events s') = weather_fetches (events s) @ [q2]"
    and "\<not> isValid (weatherRequest s')" by simp_all
  with q1 q2 c d show ?thesis by blast
qed

section \<open>The claims\<close>

subsection \<open>Weather requests during playback\<close>

text \<open>
  C1. The claim: in Playing mode a submitted weather request does not reach the handler
  and is answered by one empty packet (id 0, status \<open>OK\<close>, no metars). The code does
  otherwise. \<^verbatim>\<open>setWeatherRequest\<close> tests \<^verbatim>\<open>saveReplayFile\<close>, and during playback the record file
  is not open: the request is passed to the handler and stored there, the loop is woken
  and no packet is posted. The dummy reply that the comment in the code promises for
  replaying is posted while recording instead, where the request is dropped.
\<close>

theorem playback_request_reaches_handler:
  "loadReplayFile playing_thread \<noteq> None \<and> saveReplayFile playing_thread = None
   \<and> posted (events (setWeatherRequest eddf_request playing_thread)) = []
   \<and> weatherRequest (setWeatherRequest eddf_request playing_thread) = eddf_request
   \<and> events (setWeatherRequest eddf_request playing_thread)
       = events playing_thread @ [Handler (AddWeatherRequest eddf_request), WakeAll]
   \<and> events (setWeatherRequest eddf_request recording_thread)
       = events recording_thread @ [PostSimConnectData SimConnectData_default]
   \<and> weatherRequest (setWeatherRequest eddf_request recording_thread) = WeatherRequest_default"
  by (simp add: run_eval file_eval playing_thread_def recording_thread_def recorder_def eddf_request_def)

subsection \<open>Errors of the playback file\<close>




subsection \<open>Failed fetches\<close>

text \<open>
  C3, as stated, fails: the fetch fails, the handler is not in state \<^verbatim>\<open>STATEOK\<close> and the
  simulator is still running; the cycle clears \<^verbatim>\<open>connected\<close> and emits
  \<^verbatim>\<open>disconnectedFromSimulator\<close>.
\<close>

theorem failed_fetch_disconnects:
  "map_sum id connected (cycle plain_build (failing_cycle False True) live_thread) = Inr False
   \<and> map_sum id events (cycle plain_build (failing_cycle False True) live_thread)
       = Inr [Handler GetWeatherRequest, Handler FetchData,
              Handler (AddWeatherRequest WeatherRequest_default), Handler GetState,
              DisconnectedFromSimulator, QWarning ''Error fetching data from simulator.'',
              Handler IsSimRunning]
   \<and> connected live_thread \<and> loadReplayFile live_thread = None
   \<and> \<not> fetch_ok (failing_cycle False True) \<and> sim_running (failing_cycle False True)"
  by (simp add: run_eval live_thread_def failing_cycle_def)

text \<open>
  C3, amended. What a live cycle does after a failed telemetry fetch depends on the state
  of the handler. If it is \<^verbatim>\<open>STATEOK\<close> the cycle changes neither \<^verbatim>\<open>connected\<close> nor
  \<^verbatim>\<open>reconnecting\<close>, emits no signal and logs nothing. If it is not and the simulator is
  still running, the cycle clears \<^verbatim>\<open>connected\<close>, emits \<^verbatim>\<open>disconnectedFromSimulator\<close> once,
  warns, and does not reconnect.
\<close>

theorem failed_fetch_by_handler_state:
  assumes "loadReplayFile s = None" and "\<not> isValid (weatherRequest s)" and "\<not> fetch_ok e"
  shows "(state_ok e \<longrightarrow>
            (\<exists>s'. cycle K e s = Inr s' \<and> connected s' = connected s
                 \<and> reconnecting s' = reconnecting s
                 \<and> events s' = events s @ [Handler GetWeatherRequest, Handler FetchData,
                      Handler (AddWeatherRequest WeatherRequest_default), Handler GetState]))
         \<and> (\<not> state_ok e \<and> sim_running e \<longrightarrow>
            (\<exists>s'. cycle K e s = Inr s' \<and> \<not> connected s'
                 \<and> reconnecting s' = reconnecting s
                 \<and> events s' = events s @ [Handler GetWeatherRequest, Handler FetchData,
                      Handler (AddWeatherRequest WeatherRequest_default), Handler GetState,
                      DisconnectedFromSimulator,
                      QWarning ''Error fetching data from simulator.'', Handler IsSimRunning]))"
  using assms by (simp add: cycle_def fetchData_def Let_def emit_def)

theorem failed_fetch_by_handler_state_witness:
  "loadReplayFile live_thread = None \<and> \<not> isValid (weatherRequest live_thread)
   \<and> \<not> fetch_ok (failing_cycle True True) \<and> state_ok (failing_cycle True True)
   \<and> map_sum id (\<lambda>s. (connected s, reconnecting s, events s))
        (cycle plain_build (failing_cycle True True) live_thread)
       = Inr (True, False, [Handler GetWeatherRequest, Handler FetchData,
                Handler (AddWeatherRequest WeatherRequest_default), Handler GetState])
   \<and> \<not> fetch_ok (failing_cycle False True) \<and> \<not> state_ok (failing_cycle False True)
   \<and> sim_running (failing_cycle False True)
   \<and> map_sum id (\<lambda>s. (connected s, reconnecting s))
        (cycle plain_build (failing_cycle False True) live_thread) = Inr (False, False)"
  using failed_fetch_by_handler_state [of live_thread "failing_cycle True True" plain_build]
    failed_fetch_by_handler_state [of live_thread "failing_cycle False True" plain_build]
  by (simp add: run_eval live_thread_def failing_cycle_def)

subsection \<open>The ids of a live run\<close>

text \<open>
  C4, as stated, fails: a run whose second fetch fails delivers the ids 1 and 3.
\<close>

theorem live_ids_have_gaps:
  "map_sum id (map packetId \<circ> posted \<circ> events) (run plain_build gap_run new_thread) = Inr [1, 3]"
  by (simp add: run_eval gap_run_def)

text \<open>
  C4, amended. In a run without playback and without weather requests, the fetch of
  cycle \<open>i\<close> (counted from 0) takes the id \<open>start + i\<close>, where \<open>start\<close> is the counter
  at the start of the run, and the ids delivered are those of the cycles whose fetch
  succeeded, in order. As long as the counter does not wrap they are strictly increasing,
  and when no fetch fails they are \<open>start, start + 1, \<dots>\<close> without a gap.
\<close>

theorem live_ids_increasing:
  assumes "run K env s = Inr s'"
    and "loadReplayFilepath s = []" and "loadReplayFile s = None"
    and "\<not> isValid (weatherRequest s)" and "\<forall>c\<in>set (cycles env). submits c = []"
    and "unat (nextPacketId s) + length (cycles env) \<le> 2 ^ 64"
  shows "map packetId (drop (length (posted (events s))) (posted (events s')))
           = map (\<lambda>i. nextPacketId s + of_nat i)
               (filter (\<lambda>i. fetch_ok (cycles env ! i)) [0..<length (cycles env)])
         \<and> sorted_wrt (<) (map packetId (drop (length (posted (events s))) (posted (events s'))))
         \<and> ((\<forall>c\<in>set (cycles env). fetch_ok c) \<longrightarrow>
              map packetId (drop (length (posted (events s))) (posted (events s')))
                = map (\<lambda>i. nextPacketId s + of_nat i) [0..<length (cycles env)])"
proof -
  from run_live_telemetry [OF assms(1-5)]
  have "drop (length (posted (events s))) (posted (events s'))
          = live_packets (nextPacketId s) (cycles env)" by simp
  with live_packets_ids [of "nextPacketId s" "cycles env"]
       live_packets_increasing [OF assms(6)]
       live_packets_all_ok [of "cycles env" "nextPacketId s"]
  show ?thesis by simp
qed

theorem live_ids_increasing_witness:
  "loadReplayFilepath new_thread = [] \<and> loadReplayFile new_thread = None
   \<and> \<not> isValid (weatherRequest new_thread) \<and> list_all (\<lambda>c. submits c = []) (cycles two_cycles)
   \<and> list_all fetch_ok (cycles two_cycles)
   \<and> unat (nextPacketId new_thread) + length (cycles two_cycles) \<le> 2 ^ 64
   \<and> map_sum id (\<lambda>s. map packetId (posted (events s))) (run plain_build two_cycles new_thread)
       = Inr [1, 2]
   \<and> sorted_wrt (<) (map packetId (drop (length (posted (events new_thread)))
        (posted (events (projr (run plain_build two_cycles new_thread))))))"
proof -
  have r: "run plain_build two_cycles new_thread
             = Inr (projr (run plain_build two_cycles new_thread))"
    by (simp add: run_eval two_cycles_def)
  have h: "loadReplayFilepath new_thread = []" "loadReplayFile new_thread = None"
    "\<not> isValid (weatherRequest new_thread)" "\<forall>c\<in>set (cycles two_cycles). submits c = []"
    "unat (nextPacketId new_thread) + length (cycles two_cycles) \<le> 2 ^ 64"
    by (simp_all add: run_eval two_cycles_def)
  from live_ids_increasing [OF r h] h show ?thesis
    by (simp add: run_eval two_cycles_def list_all_iff)
qed

subsection \<open>The id of a failed fetch\<close>

text \<open>
  C5. Every call of \<^verbatim>\<open>fetchData\<close> with no weather request pending hands out the counter
  and advances it by one, also when the handler's fetch fails: the packet gets the old
  value, the result is the handler's. A cycle whose fetch fails delivers nothing and
  still advances the counter, so in a run the id of a failed fetch is not among the ids
  delivered (as long as the run has no more cycles than the counter has values).
\<close>

theorem failed_fetch_consumes_id:
  "(\<not> isValid (weatherRequest s) \<longrightarrow>
      nextPacketId (snd (snd (fetchData e s))) = nextPacketId s + 1
      \<and> packetId (fst (snd (fetchData e s))) = nextPacketId s
      \<and> fst (fetchData e s) = fetch_ok e)
   \<and> (\<forall>s'. \<not> isValid (weatherRequest s) \<and> loadReplayFile s = None \<and> \<not> fetch_ok e
            \<and> cycle K e s = Inr s' \<longrightarrow>
         posted (events s') = posted (events s) \<and> nextPacketId s' = nextPacketId s + 1)
   \<and> (\<forall>s' i. run K env s = Inr s' \<and> loadReplayFilepath s = [] \<and> loadReplayFile s = None
            \<and> \<not> isValid (weatherRequest s) \<and> (\<forall>c\<in>set (cycles env). submits c = [])
            \<and> i < length (cycles env) \<and> \<not> fetch_ok (cycles env ! i)
            \<and> length (cycles env) \<le> 2 ^ 64 \<longrightarrow>
         nextPacketId s' = nextPacketId s + of_nat (length (cycles env))
         \<and> nextPacketId s + of_nat i
             \<notin> packetId ` set (drop (length (posted (events s))) (posted (events s'))))"
proof -
  have 1: "\<not> isValid (weatherRequest s) \<longrightarrow>
      nextPacketId (snd (snd (fetchData e s))) = nextPacketId s + 1
      \<and> packetId (fst (snd (fetchData e s))) = nextPacketId s
      \<and> fst (fetchData e s) = fetch_ok e"
    by (simp add: fetchData_def Let_def)
  have 2: "\<forall>s'. \<not> isValid (weatherRequest s) \<and> loadReplayFile s = None \<and> \<not> fetch_ok e
            \<and> cycle K e s = Inr s' \<longrightarrow>
         posted (events s') = posted (events s) \<and> nextPacketId s' = nextPacketId s + 1"
    using cycle_live_telemetry [of s K e] by simp
  have 3: "\<forall>s' i. run K env s = Inr s' \<and> loadReplayFilepath s = [] \<and> loadReplayFile s = None
            \<and> \<not> isValid (weatherRequest s) \<and> (\<forall>c\<in>set (cycles env). submits c = [])
            \<and> i < length (cycles env) \<and> \<not> fetch_ok (cycles env ! i)
            \<and> length (cycles env) \<le> 2 ^ 64 \<longrightarrow>
         nextPacketId s' = nextPacketId s + of_nat (length (cycles env))
         \<and> nextPacketId s + of_nat i
             \<notin> packetId ` set (drop (length (posted (events s))) (posted (events s')))"
    using run_live_telemetry [of K env s] live_packets_skips_failed [of _ "cycles env" "nextPacketId s"]
    by simp
  from 1 2 3 show ?thesis by blast
qed

theorem failed_fetch_consumes_id_witness:
  "\<not> isValid (weatherRequest new_thread) \<and> loadReplayFile new_thread = None
   \<and> loadReplayFilepath new_thread = [] \<and> list_all (\<lambda>c. submits c = []) (cycles gap_run)
   \<and> \<not> fetch_ok (cycles gap_run ! 1) \<and> \<not> fetch_ok (quiet_cycle False [])
   \<and> nextPacketId (snd (snd (fetchData (quiet_cycle False []) new_thread))) = 2
   \<and> map_sum id (\<lambda>s. (nextPacketId s, posted (events s)))
        (cycle plain_build (quiet_cycle False []) new_thread) = Inr (2, [])
   \<and> map_sum id (\<lambda>s. (nextPacketId s, map packetId (posted (events s))))
        (run plain_build gap_run new_thread) = Inr (4, [1, 3])"
  using failed_fetch_consumes_id [of new_thread "quiet_cycle False []" plain_build gap_run]
  by (simp add: run_eval gap_run_def)

subsection \<open>Weather replies\<close>

text \<open>
  C6. Every weather-only packet that \<^verbatim>\<open>fetchData\<close> produces has packet id 0, whatever the
  telemetry counter has reached, and servicing the request leaves the counter as it was.
  A cycle that services a weather request leaves the record file untouched; in a whole
  run no packet with id 0 is ever written to the record file, and the file a recording
  run leaves on disk holds the header and the records of the posted packets whose id is
  not 0, and nothing else.
\<close>

theorem weather_reply_has_id_zero:
  "(isValid (weatherRequest s) \<longrightarrow>
      fst (fetchData e s) \<and> packetId (fst (snd (fetchData e s))) = 0
      \<and> nextPacketId (snd (snd (fetchData e s))) = nextPacketId s)
   \<and> (\<forall>s'. isValid (weatherRequest s) \<and> loadReplayFile s = None \<and> cycle K e s = Inr s' \<longrightarrow>
         saveReplayFile s' = saveReplayFile s \<and> written (events s') = written (events s))
   \<and> (\<forall>s'. run K env s = Inr s' \<longrightarrow>
         (\<forall>d\<in>set (drop (length (written (events s))) (written (events s'))). packetId d \<noteq> 0))
   \<and> (\<forall>s'. run K env s = Inr s' \<and> open_wr env \<and> loadReplayFilepath s = []
            \<and> loadReplayFile s = None \<and> saveReplayFilepath s \<noteq> [] \<longrightarrow>
         disk s' (saveReplayFilepath s)
           = Some (replay_header K (word_of_int (updateRate s))
                   @ concat (map (sc_write K)
                       (filter (\<lambda>d. packetId d \<noteq> 0)
                          (drop (length (posted (events s))) (posted (events s')))))))"
proof -
  have 1: "isValid (weatherRequest s) \<longrightarrow>
      fst (fetchData e s) \<and> packetId (fst (snd (fetchData e s))) = 0
      \<and> nextPacketId (snd (snd (fetchData e s))) = nextPacketId s"
    by (simp add: fetchData_def Let_def)
  have 2: "\<forall>s'. isValid (weatherRequest s) \<and> loadReplayFile s = None \<and> cycle K e s = Inr s' \<longrightarrow>
         saveReplayFile s' = saveReplayFile s \<and> written (events s') = written (events s)"
    by (auto simp add: cycle_def fetchData_def Let_def split: option.splits if_splits)
  have 3: "\<forall>s'. run K env s = Inr s' \<longrightarrow>
         (\<forall>d\<in>set (drop (length (written (events s))) (written (events s'))). packetId d \<noteq> 0)"
    using run_written [of K env s] by fastforce
  have 4: "\<forall>s'. run K env s = Inr s' \<and> open_wr env \<and> loadReplayFilepath s = []
            \<and> loadReplayFile s = None \<and> saveReplayFilepath s \<noteq> [] \<longrightarrow>
         disk s' (saveReplayFilepath s)
           = Some (replay_header K (word_of_int (updateRate s))
                   @ concat (map (sc_write K)
                       (filter (\<lambda>d. packetId d \<noteq> 0)
                          (drop (length (posted (events s))) (posted (events s'))))))"
    using run_recording [of K env s] by fastforce
  from 1 2 3 4 show ?thesis by blast
qed

theorem weather_reply_has_id_zero_witness:
  "isValid (weatherRequest pending_recording) \<and> loadReplayFile pending_recording = None
   \<and> loadReplayFilepath pending_recording = [] \<and> saveReplayFilepath pending_recording = ''rec''
   \<and> open_wr two_cycles
   \<and> packetId (fst (snd (fetchData (quiet_cycle True [1]) pending_recording))) = 0
   \<and> nextPacketId (snd (snd (fetchData (quiet_cycle True [1]) pending_recording))) = 1
   \<and> map_sum id (\<lambda>s. written (events s)) (cycle plain_build (quiet_cycle True [1]) pending_recording)
       = Inr []
   \<and> map_sum id (\<lambda>s. (map packetId (posted (events s)), map packetId (written (events s)),
                      disk s ''rec''))
        (run plain_build two_cycles pending_recording)
       = Inr ([0, 1], [1],
              Some (replay_header plain_build 500
                    @ plain_write ((telemetry [2])\<lparr>packetId := 1, packetTs := 1000\<rparr>)))"
proof -
  let ?e = "quiet_cycle True [1]"
  let ?p = "(telemetry [2])\<lparr>packetId := 1, packetTs := 1000\<rparr>"
  have h: "isValid (weatherRequest pending_recording)" "loadReplayFile pending_recording = None"
    "loadReplayFilepath pending_recording = []" "saveReplayFilepath pending_recording = ''rec''"
    "open_wr two_cycles" "written (events pending_recording) = []"
    "posted (events pending_recording) = []" "updateRate pending_recording = 500"
    "nextPacketId pending_recording = 1"
    by (simp_all add: pending_recording_def recorder_def new_thread_def two_cycles_def)
  have "\<exists>s1. cycle plain_build ?e pending_recording = Inr s1"
    by (simp add: run_eval pending_recording_def recorder_def)
  then obtain s1 where c: "cycle plain_build ?e pending_recording = Inr s1" by blast
  have "\<exists>s'. run plain_build two_cycles pending_recording = Inr s'
          \<and> map packetId (posted (events s')) = [0, 1] \<and> map packetId (written (events s')) = [1]
          \<and> filter (\<lambda>d. packetId d \<noteq> 0) (posted (events s')) = [?p]"
    by (simp add: run_eval pending_recording_def recorder_def two_cycles_def)
  then obtain s' where r: "run plain_build two_cycles pending_recording = Inr s'"
    and ids: "map packetId (posted (events s')) = [0, 1]" "map packetId (written (events s')) = [1]"
    and nz: "filter (\<lambda>d. packetId d \<noteq> 0) (posted (events s')) = [?p]"
    by auto
  note inst = weather_reply_has_id_zero [of pending_recording ?e plain_build two_cycles]
  from inst h(1,9) have a: "packetId (fst (snd (fetchData ?e pending_recording))) = 0"
    "nextPacketId (snd (snd (fetchData ?e pending_recording))) = 1"
    by simp_all
  from inst h(1,2,6) c have b: "written (events s1) = []" by simp
  from inst r h nz have d: "disk s' ''rec'' = Some (replay_header plain_build 500 @ plain_write ?p)"
    by (simp add: plain_build_def)
  from c b have "map_sum id (\<lambda>s. written (events s)) (cycle plain_build ?e pending_recording)
                   = Inr []" by simp
  moreover from r ids d
  have "map_sum id (\<lambda>s. (map packetId (posted (events s)), map packetId (written (events s)),
                         disk s ''rec''))
          (run plain_build two_cycles pending_recording)
        = Inr ([0, 1], [1], Some (replay_header plain_build 500 @ plain_write ?p))" by simp
  ultimately show ?thesis using h(1-5) a by blast
qed

subsection \<open>Recording and playing back\<close>

text \<open>
  C7. Round trip. Let \<open>P\<close> be the telemetry packets that a run with the record file
  configured delivers (the posted packets with an id other than 0), at least one, and
  let every packet of \<open>P\<close> survive the serialisation of the build (\<open>replayable\<close>: status
  \<open>OK\<close>, a record that is not empty, and reading back what was written gives the packet
  and the rest of the stream). Then the run leaves on disk the header followed by the
  records of \<open>P\<close>, and a thread that plays this file back posts \<open>P\<close> in order, packet for
  packet, and starts again with the first packet after the last: cycle \<open>i\<close> posts packet
  \<open>i mod n\<close>.
\<close>

theorem record_then_replay:
  assumes "run K env s = Inr s'" and "open_wr env"
    and "loadReplayFilepath s = []" and "loadReplayFile s = None"
    and "saveReplayFilepath s \<noteq> []"
    and "P = filter (\<lambda>d. packetId d \<noteq> 0)
               (drop (length (posted (events s))) (posted (events s')))"
    and "P \<noteq> []" and "\<forall>d\<in>set P. replayable K d"
    and "loadReplayFilepath t = saveReplayFilepath s"
    and "disk t (saveReplayFilepath s) = disk s' (saveReplayFilepath s)"
    and "saveReplayFile t = None" and "open_rd env'"
  shows "disk s' (saveReplayFilepath s)
           = Some (replay_header K (word_of_int (updateRate s)) @ concat (map (sc_write K) P))
         \<and> (\<exists>t'. run K env' t = Inr t'
               \<and> posted (events t')
                   = posted (events t) @ map (\<lambda>i. P ! (i mod length P)) [0..<length (cycles env')])"
proof -
  from run_recording [OF assms(1-5)] assms(6)
  have d: "disk s' (saveReplayFilepath s)
       = Some (replay_header K (word_of_int (updateRate s)) @ concat (map (sc_write K) P))"
    by auto
  from assms(5,9) have 1: "loadReplayFilepath t \<noteq> []" by simp
  from d assms(9,10) have 2: "disk t (loadReplayFilepath t)
       = Some (replay_header K (word_of_int (updateRate s)) @ concat (map (sc_write K) P))"
    by simp
  from run_playback [OF 1 2 assms(7,8,11,12)] d show ?thesis by simp
qed

theorem record_then_replay_witness:
  "map_sum id (\<lambda>s. (posted (events s), disk s ''rec'')) (run plain_build two_cycles recorder)
     = Inr ([(telemetry [1])\<lparr>packetId := 1, packetTs := 1000\<rparr>,
             (telemetry [2])\<lparr>packetId := 2, packetTs := 1000\<rparr>], Some recorded_file)
   \<and> list_all (replayable plain_build)
        [(telemetry [1])\<lparr>packetId := 1, packetTs := 1000\<rparr>,
         (telemetry [2])\<lparr>packetId := 2, packetTs := 1000\<rparr>]
   \<and> map_sum id (posted \<circ> events) (run plain_build three_cycles (playback_thread recorded_file))
     = Inr [(telemetry [1])\<lparr>packetId := 1, packetTs := 1000\<rparr>,
            (telemetry [2])\<lparr>packetId := 2, packetTs := 1000\<rparr>,
            (telemetry [1])\<lparr>packetId := 1, packetTs := 1000\<rparr>]"
proof -
  let ?p1 = "(telemetry [1])\<lparr>packetId := 1, packetTs := 1000\<rparr>"
  let ?p2 = "(telemetry [2])\<lparr>packetId := 2, packetTs := 1000\<rparr>"
  let ?t = "playback_thread recorded_file"
  have "\<exists>s'. run plain_build two_cycles recorder = Inr s'
          \<and> posted (events s') = [?p1, ?p2] \<and> disk s' ''rec'' = Some recorded_file"
    by (simp add: run_eval recorder_def two_cycles_def recorded_file_def replay_header_def)
  then obtain s' where r: "run plain_build two_cycles recorder = Inr s'"
    and p: "posted (events s') = [?p1, ?p2]"
    and d: "disk s' ''rec'' = Some recorded_file" by blast
  have pk: "plain_packet ?p1" "plain_packet ?p2"
    by (simp_all add: plain_packet_def telemetry_def SimConnectData_default_def)
  then have rp: "replayable plain_build ?p1" "replayable plain_build ?p2"
    by (simp_all add: replayable_def plain_build_def plain_read_write plain_write_not_empty
          telemetry_def SimConnectData_default_def)
  have h: "open_wr two_cycles" "loadReplayFilepath recorder = []" "loadReplayFile recorder = None"
    "saveReplayFilepath recorder \<noteq> []" "saveReplayFilepath recorder = ''rec''"
    "posted (events recorder) = []" "open_rd three_cycles" "length (cycles three_cycles) = 3"
    by (simp_all add: recorder_def new_thread_def two_cycles_def three_cycles_def)
  have ht: "loadReplayFilepath ?t = saveReplayFilepath recorder"
    "disk ?t (saveReplayFilepath recorder) = disk s' (saveReplayFilepath recorder)"
    "saveReplayFile ?t = None" "posted (events ?t) = []"
    by (simp_all add: playback_thread_def new_thread_def recorder_def d)
  have ps: "[?p1, ?p2] = filter (\<lambda>d. packetId d \<noteq> 0)
                           (drop (length (posted (events recorder))) (posted (events s')))"
    "[?p1, ?p2] \<noteq> []" "\<forall>d\<in>set [?p1, ?p2]. replayable plain_build d"
    using p rp by (simp_all add: h(6))
  from record_then_replay [OF r h(1-4) ps ht(1-3) h(7)]
  obtain t' where rt: "run plain_build three_cycles ?t = Inr t'"
    and pt: "posted (events t') = posted (events ?t)
               @ map (\<lambda>i. [?p1, ?p2] ! (i mod length [?p1, ?p2])) [0..<length (cycles three_cycles)]"
    by blast
  have "map (\<lambda>i. [?p1, ?p2] ! (i mod length [?p1, ?p2])) [0..<length (cycles three_cycles)]
          = [?p1, ?p2, ?p1]"
    by (simp add: h(8) upt_rec)
  with rt pt have "map_sum id (posted \<circ> events) (run plain_build three_cycles ?t)
                     = Inr [?p1, ?p2, ?p1]"
    by (simp add: ht(4))
  moreover from r p d have "map_sum id (\<lambda>s. (posted (events s), disk s ''rec''))
      (run plain_build two_cycles recorder) = Inr ([?p1, ?p2], Some recorded_file)" by simp
  moreover from rp have "list_all (replayable plain_build) [?p1, ?p2]"
    by simp
  ultimately show ?thesis by blast
qed

subsection \<open>Opening a playback file\<close>

text \<open>
  C8. Where the operating system lets the file be opened, a configured playback file is
  opened iff it is longer than the 12 bytes of the header and its magic number and version
  are the expected constants. A file that fails a check is rejected with one error
  message that names the check (too small, wrong magic number, wrong version), and a run
  started on it never reads a packet from it.
\<close>

theorem playback_open_checks_header:
  assumes "loadReplayFilepath s \<noteq> []"
  shows "(loadReplayFile (setupReplay K True w s) \<noteq> None
            \<longleftrightarrow> header_accepted K (file_bytes s (loadReplayFilepath s)))
         \<and> (\<not> header_accepted K (file_bytes s (loadReplayFilepath s)) \<longrightarrow>
              events (setupReplay K True w s)
                = events s @ [PostLogMessage
                    (header_error K (loadReplayFilepath s) (file_bytes s (loadReplayFilepath s)))
                    True]
              \<and> (\<forall>env s'. open_rd env \<and> run K env s = Inr s' \<longrightarrow>
                    replay_reads (events s') = replay_reads (events s)))"
proof (cases "header_accepted K (file_bytes s (loadReplayFilepath s))")
  case True
  with setupReplay_accepted(1) [OF assms True, of w] show ?thesis by simp
next
  case False
  note rej = setupReplay_rejected [OF assms False]
  have "\<forall>env s'. open_rd env \<and> run K env s = Inr s' \<longrightarrow>
          replay_reads (events s') = replay_reads (events s)"
  proof (intro allI impI, elim conjE)
    fix env s'
    assume o: "open_rd env" and r: "run K env s = Inr s'"
    from o rej(1) [of "open_wr env"]
    have "loadReplayFile (setupReplay K (open_rd env) (open_wr env) s) = None" by simp
    from run_without_playback(1) [OF r this]
    show "replay_reads (events s') = replay_reads (events s)" .
  qed
  with False rej(1,3) [of w] show ?thesis by simp
qed

theorem playback_open_checks_header_witness:
  "loadReplayFilepath (playback_thread recorded_file) \<noteq> []
   \<and> header_accepted plain_build (file_bytes (playback_thread recorded_file) ''rec'')
   \<and> loadReplayFile (setupReplay plain_build True True (playback_thread recorded_file)) \<noteq> None
   \<and> \<not> header_accepted plain_build (file_bytes (playback_thread header_only_file) ''rec'')
   \<and> events (setupReplay plain_build True True (playback_thread header_only_file))
       = [PostLogMessage (FileTooSmall ''rec'') True]
   \<and> \<not> header_accepted plain_build (file_bytes (playback_thread flipped_magic_file) ''rec'')
   \<and> events (setupReplay plain_build True True (playback_thread flipped_magic_file))
       = [PostLogMessage (WrongMagicNumber ''rec'') True]
   \<and> \<not> header_accepted plain_build (file_bytes (playback_thread wrong_version_file) ''rec'')
   \<and> events (setupReplay plain_build True True (playback_thread wrong_version_file))
       = [PostLogMessage (WrongVersion ''rec'') True]
   \<and> open_rd two_cycles
   \<and> map_sum id (replay_reads \<circ> events)
        (run plain_build two_cycles (playback_thread flipped_magic_file)) = Inr 0"
proof -
  have p: "loadReplayFilepath (playback_thread bs) = ''rec''" "events (playback_thread bs) = []"
    for bs by (simp_all add: playback_thread_def new_thread_def)
  have a: "header_accepted plain_build (file_bytes (playback_thread recorded_file) ''rec'')"
    by (simp add: file_eval plain_build_def)
  have b: "\<not> header_accepted plain_build (file_bytes (playback_thread header_only_file) ''rec'')"
    "header_error plain_build ''rec'' (file_bytes (playback_thread header_only_file) ''rec'')
       = FileTooSmall ''rec''"
    by (simp_all add: file_eval plain_build_def header_only_file_def)
  have c: "\<not> header_accepted plain_build (file_bytes (playback_thread flipped_magic_file) ''rec'')"
    "header_error plain_build ''rec'' (file_bytes (playback_thread flipped_magic_file) ''rec'')
       = WrongMagicNumber ''rec''"
    by (simp_all add: file_eval plain_build_def flipped_magic_file_def)
  have d: "\<not> header_accepted plain_build (file_bytes (playback_thread wrong_version_file) ''rec'')"
    "header_error plain_build ''rec'' (file_bytes (playback_thread wrong_version_file) ''rec'')
       = WrongVersion ''rec''"
    by (simp_all add: file_eval plain_build_def wrong_version_file_def)
  obtain s' where r: "run plain_build two_cycles (playback_thread flipped_magic_file) = Inr s'"
    by (simp add: run_eval file_eval two_cycles_def flipped_magic_file_def)
  have o: "open_rd two_cycles" by (simp add: two_cycles_def)
  have ne: "loadReplayFilepath (playback_thread bs) \<noteq> []" for bs by (simp add: p)
  from playback_open_checks_header [OF ne, where bs1 = recorded_file and K = plain_build and w = True] a
  have 1: "loadReplayFile (setupReplay plain_build True True (playback_thread recorded_file)) \<noteq> None"
    by (simp add: p)
  from playback_open_checks_header [OF ne, where bs1 = header_only_file and K = plain_build and w = True] b
  have 2: "events (setupReplay plain_build True True (playback_thread header_only_file))
             = [PostLogMessage (FileTooSmall ''rec'') True]"
    by (simp add: p)
  from playback_open_checks_header [OF ne, where bs1 = flipped_magic_file and K = plain_build and w = True] c
  have 3: "events (setupReplay plain_build True True (playback_thread flipped_magic_file))
             = [PostLogMessage (WrongMagicNumber ''rec'') True]"
    and "\<forall>env s'. open_rd env \<and> run plain_build env (playback_thread flipped_magic_file) = Inr s'
           \<longrightarrow> replay_reads (events s') = 0"
    by (simp_all add: p)
  with o r have "replay_reads (events s') = 0" by blast
  with r have 5: "map_sum id (replay_reads \<circ> events)
        (run plain_build two_cycles (playback_thread flipped_magic_file)) = Inr 0"
    by simp
  from playback_open_checks_header [OF ne, where bs1 = wrong_version_file and K = plain_build and w = True] d
  have 4: "events (setupReplay plain_build True True (playback_thread wrong_version_file))
             = [PostLogMessage (WrongVersion ''rec'') True]"
    by (simp add: p)
  from ne a b c d 1 2 3 4 5 o show ?thesis by blast
qed

subsection \<open>The latest request wins\<close>

text \<open>
  C9. The claim: if \<open>Q1\<close> and then \<open>Q2\<close> are submitted before the loop services either,
  exactly one weather fetch reaches the handler, for \<open>Q2\<close>. In live mode the code does
  this. While recording it does not: \<^verbatim>\<open>setWeatherRequest\<close> finds the record file open,
  posts an empty packet for each request and returns before it stores anything, so the
  slot stays empty, the cycles fetch telemetry only and no weather fetch ever reaches the
  handler. This is the test on \<^verbatim>\<open>saveReplayFile\<close> that C1 is about.
\<close>

theorem recording_drops_weather_requests:
  "saveReplayFile recording_thread \<noteq> None \<and> loadReplayFile recording_thread = None
   \<and> isValid ksfo_request \<and> isValid eddf_request
   \<and> weatherRequest (setWeatherRequest eddf_request (setWeatherRequest ksfo_request recording_thread))
       = WeatherRequest_default
   \<and> map_sum id (weather_fetches \<circ> events)
        (mainLoop plain_build (cycles two_cycles)
           (setWeatherRequest eddf_request (setWeatherRequest ksfo_request recording_thread)))
       = Inr []
   \<and> map_sum id (map packetId \<circ> posted \<circ> events)
        (mainLoop plain_build (cycles two_cycles)
           (setWeatherRequest eddf_request (setWeatherRequest ksfo_request recording_thread)))
       = Inr [0, 0, 1, 2]
   \<and> map_sum id (weather_fetches \<circ> events)
        (mainLoop plain_build (cycles two_cycles)
           (setWeatherRequest eddf_request (setWeatherRequest ksfo_request live_thread)))
       = Inr [eddf_request]"
  by (simp add: run_eval two_cycles_def recording_thread_def recorder_def live_thread_def
        eddf_request_def ksfo_request_def replay_header_def)

subsection \<open>Cancelling the reconnect wait\<close>

text \<open>
  C10. Let the thread be blocked in \<^verbatim>\<open>connectToSimulator\<close>: it has made the passes \<open>pre\<close>, each
  of which found \<^verbatim>\<open>terminate\<close> unset and failed to connect if it tried, and each of which ends
  in a sleep of one second. If cancellation is requested during the last of these sleeps,
  the next test finds the flag set and \<^verbatim>\<open>connectToSimulator\<close> returns: it has slept one
  second for each pass of \<open>pre\<close> and nothing happens after the sleep in which the request
  came, so it returns within that one-second tick. Time is counted in seconds slept.
\<close>

theorem reconnect_wait_cancellation:
  assumes "pre \<noteq> []" and "\<forall>p\<in>set pre. \<not> cancel p \<and> \<not> connect_ok p" and "cancel t"
    and "reconnectRateSec s \<noteq> 0"
  shows "connectToSimulator pre s = Inl StillWaiting
         \<and> (\<exists>s'. connectToSimulator (pre @ t # post) s = Inr s'
               \<and> slept (events s') = slept (events s) + length pre
               \<and> last (events s') = Sleep 1
               \<and> connected s' = connected s \<and> \<not> reconnecting s')"
proof -
  let ?s0 = "(emit (PostLogMessage NotConnectedWaiting False) s)\<lparr>reconnecting := True\<rparr>"
  from assms(4) have "reconnectRateSec ?s0 \<noteq> 0" by simp
  from connectLoop_cancel [OF assms(2,3) this, of 0 post] assms(1)
  obtain s1 where w: "connectLoop pre 0 ?s0 = Inl StillWaiting"
    and r: "connectLoop (pre @ t # post) 0 ?s0 = Inr s1"
    and sl: "slept (events s1) = slept (events ?s0) + length pre"
    and f: "connected s1 = connected ?s0" and la: "last (events s1) = Sleep 1"
    by blast
  from w have "connectToSimulator pre s = Inl StillWaiting"
    by (simp add: connectToSimulator_def)
  moreover from r have "connectToSimulator (pre @ t # post) s = Inr (s1\<lparr>reconnecting := False\<rparr>)"
    by (simp add: connectToSimulator_def)
  moreover from sl have "slept (events (s1\<lparr>reconnecting := False\<rparr>)) = slept (events s) + length pre"
    by simp
  ultimately show ?thesis using f la by simp
qed

theorem reconnect_wait_cancellation_witness:
  "waiting_ticks 12 \<noteq> [] \<and> list_all (\<lambda>p. \<not> cancel p \<and> \<not> connect_ok p) (waiting_ticks 12)
   \<and> cancel cancel_tick \<and> reconnectRateSec new_thread \<noteq> 0
   \<and> connectToSimulator (waiting_ticks 12) new_thread = Inl StillWaiting
   \<and> map_sum id (\<lambda>s. (slept (events s), last (events s), reconnecting s))
        (connectToSimulator (waiting_ticks 12 @ cancel_tick # waiting_ticks 3) new_thread)
       = Inr (12, Sleep 1, False)"
proof -
  have h: "waiting_ticks 12 \<noteq> []" "\<forall>p\<in>set (waiting_ticks 12). \<not> cancel p \<and> \<not> connect_ok p"
    "cancel cancel_tick" "reconnectRateSec new_thread \<noteq> 0" "slept (events new_thread) = 0"
    "length (waiting_ticks 12) = 12"
    by (simp_all add: waiting_ticks_def cancel_tick_def new_thread_def)
  from reconnect_wait_cancellation [OF h(1-4), of "waiting_ticks 3"] h(5,6)
  obtain s' where "connectToSimulator (waiting_ticks 12) new_thread = Inl StillWaiting"
    and "connectToSimulator (waiting_ticks 12 @ cancel_tick # waiting_ticks 3) new_thread = Inr s'"
    and "slept (events s') = 12" "last (events s') = Sleep 1" "\<not> reconnecting s'"
    by auto
  with h(1-4) show ?thesis by (simp add: list_all_iff)
qed

end
